theory Spec2Isabelle
  imports Complex_Main
begin

chapter \<open>The BMR calculator script\<close>

text \<open>
  \<open>script.js\<close> computes a basal metabolic rate from the gender, age, height and weight
  that a web form holds. This theory embeds its three functions with logic,
  \<open>calculateBMR\<close>, \<open>validateInputs\<close> and \<open>performCalculation\<close>, on a model of the
  Numbers they compute with, and settles what the specification says about them.
\<close>

section \<open>JavaScript numbers\<close>

text \<open>
  The script computes with JavaScript Numbers, the IEEE 754 binary64 values. A Number is
  NaN, one of the two infinities, or a finite value, carried here as the rational it
  denotes. The two zeros are the one value \<open>Fin 0\<close>: the script never divides and never
  inspects the sign of a zero, and each operation below gives equal results on both.
  \<open>Fin q\<close> is allowed for every rational \<open>q\<close>, a superset of the binary64 values, so
  a statement about all \<open>Fin q\<close> covers every finite Number; the arithmetic operations
  round their exact result to binary64, as the language prescribes.
\<close>

datatype jsnum = NaN | PInf | NInf | Fin rat

subsection \<open>Rounding a rational to binary64\<close>

text \<open>
  The finite binary64 values are \<open>m * 2 powi e\<close> with \<open>\<bar>m\<bar> < 2 ^ 53\<close> and
  \<open>- 1074 \<le> e \<le> 971\<close>. For a magnitude \<open>q\<close>, \<open>find_e q (- 1074)\<close> is the exponent of
  the grid it is rounded on: the least \<open>e\<close> from \<open>- 1074\<close> on with \<open>q < 2 powi (e + 53)\<close>.
  The loop stops because \<open>2 powi (e + 53)\<close> outgrows every rational.
\<close>

lemma int_less_two_powi: "(of_int e :: rat) < 2 powi (e + 53)"
proof (cases "0 \<le> e")
  case True
  then obtain n where e: "e = int n" by (metis nat_0_le)
  have "(of_nat n :: rat) < 2 ^ n" by (rule of_nat_less_two_power)
  also have "\<dots> \<le> 2 ^ (n + 53)" by (rule power_increasing) simp_all
  finally show ?thesis by (simp add: e power_int_def nat_add_distrib)
next
  case False
  then have "(of_int e :: rat) < 0" by simp
  also have "(0::rat) < 2 powi (e + 53)" by (simp add: zero_less_power_int)
  finally show ?thesis .
qed

function find_e :: "rat \<Rightarrow> int \<Rightarrow> int" where
  "find_e q e = (if q < 2 powi (e + 53) then e else find_e q (e + 1))"
  by pat_completeness auto
termination
proof (relation "measure (\<lambda>(q, e). nat (\<lceil>q\<rceil> - e))")
  show "wf (measure (\<lambda>(q::rat, e). nat (\<lceil>q\<rceil> - e)))" by simp
next
  fix q :: rat and e :: int
  assume "\<not> q < 2 powi (e + 53)"
  then have "of_int e < q" using int_less_two_powi [of e] by simp
  then have "e < \<lceil>q\<rceil>" by (simp add: less_ceiling_iff)
  then show "((q, e + 1), (q, e)) \<in> measure (\<lambda>(q, e). nat (\<lceil>q\<rceil> - e))" by simp
qed

declare find_e.simps [simp del]

text \<open>Rounding to an integer, a tie going to the even neighbour.\<close>

definition round_half_even :: "rat \<Rightarrow> int" where
  "round_half_even x =
     (let f = \<lfloor>x\<rfloor>; d = x - of_int f
      in if d < 1 / 2 then f
         else if 1 / 2 < d then f + 1
         else if even f then f else f + 1)"

text \<open>
  A magnitude \<open>q \<ge> 0\<close> rounded to nearest, ties to even, on its grid, with the exponent
  not yet bounded above; a result of \<open>2 ^ 1024\<close> or more is the overflow to infinity.
\<close>

definition round_mag :: "rat \<Rightarrow> rat" where
  "round_mag q =
     (let e = find_e q (- 1074) in of_int (round_half_even (q / 2 powi e)) * 2 powi e)"

definition to_double_mag :: "rat \<Rightarrow> jsnum" where
  "to_double_mag q = (let r = round_mag q in if 2 ^ 1024 \<le> r then PInf else Fin r)"

fun js_neg :: "jsnum \<Rightarrow> jsnum" where
  "js_neg NaN = NaN"
| "js_neg PInf = NInf"
| "js_neg NInf = PInf"
| "js_neg (Fin q) = Fin (- q)"

text \<open>Binary64 is a sign and a magnitude: a negative value rounds as its magnitude does.\<close>

definition to_double :: "rat \<Rightarrow> jsnum" where
  "to_double q = (if q < 0 then js_neg (to_double_mag (- q)) else to_double_mag q)"

subsection \<open>The operators the script uses\<close>

text \<open>A decimal literal denotes its mathematical value rounded to binary64.\<close>

definition number_literal :: "rat \<Rightarrow> jsnum" where
  "number_literal q = to_double q"

text \<open>\<open>x + y\<close>: NaN is contagious, opposite infinities give NaN, a finite sum is rounded.\<close>

fun js_add :: "jsnum \<Rightarrow> jsnum \<Rightarrow> jsnum" where
  "js_add NaN y = NaN"
| "js_add x NaN = NaN"
| "js_add PInf NInf = NaN"
| "js_add NInf PInf = NaN"
| "js_add PInf y = PInf"
| "js_add NInf y = NInf"
| "js_add (Fin x) PInf = PInf"
| "js_add (Fin x) NInf = NInf"
| "js_add (Fin x) (Fin y) = to_double (x + y)"

text \<open>\<open>x - y\<close> is \<open>x + (- y)\<close>.\<close>

definition js_sub :: "jsnum \<Rightarrow> jsnum \<Rightarrow> jsnum" where
  "js_sub x y = js_add x (js_neg y)"

text \<open>\<open>x * y\<close>: an infinity times zero is NaN; otherwise the sign is the product of the signs.\<close>

fun js_mul :: "jsnum \<Rightarrow> jsnum \<Rightarrow> jsnum" where
  "js_mul NaN y = NaN"
| "js_mul x NaN = NaN"
| "js_mul (Fin x) (Fin y) = to_double (x * y)"
| "js_mul (Fin x) PInf = (if x = 0 then NaN else if 0 < x then PInf else NInf)"
| "js_mul (Fin x) NInf = (if x = 0 then NaN else if 0 < x then NInf else PInf)"
| "js_mul PInf (Fin y) = (if y = 0 then NaN else if 0 < y then PInf else NInf)"
| "js_mul NInf (Fin y) = (if y = 0 then NaN else if 0 < y then NInf else PInf)"
| "js_mul PInf PInf = PInf"
| "js_mul PInf NInf = NInf"
| "js_mul NInf PInf = NInf"
| "js_mul NInf NInf = PInf"

text \<open>\<open>x < y\<close>, \<open>x > y\<close> and \<open>x <= y\<close>: every comparison with NaN is false.\<close>

fun js_lt :: "jsnum \<Rightarrow> jsnum \<Rightarrow> bool" where
  "js_lt NaN y = False"
| "js_lt x NaN = False"
| "js_lt (Fin x) (Fin y) = (x < y)"
| "js_lt PInf y = False"
| "js_lt x PInf = True"
| "js_lt x NInf = False"
| "js_lt NInf (Fin y) = True"

definition js_gt :: "jsnum \<Rightarrow> jsnum \<Rightarrow> bool" where
  "js_gt x y = js_lt y x"

definition js_le :: "jsnum \<Rightarrow> jsnum \<Rightarrow> bool" where
  "js_le x y = (x \<noteq> NaN \<and> y \<noteq> NaN \<and> \<not> js_lt y x)"

text \<open>\<open>!x\<close> on a Number: NaN and zero are the falsy Numbers.\<close>

definition js_not :: "jsnum \<Rightarrow> bool" where
  "js_not x = (x = NaN \<or> x = Fin 0)"

text \<open>
  \<open>Math.round(x)\<close>: NaN and the infinities are returned as they are; a finite \<open>x\<close> gives
  the nearest integer, a tie going towards \<open>+\<infinity>\<close>, that is \<open>\<lfloor>x + 1/2\<rfloor>\<close> computed
  exactly. That integer is a binary64 value whenever \<open>x\<close> is one: below \<open>2 ^ 52\<close> in
  magnitude every integer is, and from there on \<open>x\<close> is an integer itself.
\<close>

fun Math_round :: "jsnum \<Rightarrow> jsnum" where
  "Math_round (Fin q) = Fin (of_int \<lfloor>q + 1 / 2\<rfloor>)"
| "Math_round x = x"

text \<open>\<open>Number.isInteger\<close>: a finite Number without a fractional part.\<close>

fun is_integer :: "jsnum \<Rightarrow> bool" where
  "is_integer (Fin q) = (of_int \<lfloor>q\<rfloor> = q)"
| "is_integer x = False"

section \<open>The script\<close>

text \<open>
  Strings are the UTF-8 bytes of the source text. The three messages of
  \<open>validateInputs\<close> are Chinese: "please enter a valid age (1-120 years)",
  "please enter a valid height (50-250 centimetres)" and
  "please enter a valid weight (20-300 kilograms)".
\<close>

definition age_message :: string where
  "age_message =
     [CHR 0xE8, CHR 0xAF, CHR 0xB7, CHR 0xE8, CHR 0xBE, CHR 0x93, CHR 0xE5, CHR 0x85, CHR 0xA5,
      CHR 0xE6, CHR 0x9C, CHR 0x89, CHR 0xE6, CHR 0x95, CHR 0x88, CHR 0xE7, CHR 0x9A, CHR 0x84,
      CHR 0xE5, CHR 0xB9, CHR 0xB4, CHR 0xE9, CHR 0xBE, CHR 0x84, CHR 0xEF, CHR 0xBC, CHR 0x88] @
     ''1-120'' @
     [CHR 0xE5, CHR 0xB2, CHR 0x81, CHR 0xEF, CHR 0xBC, CHR 0x89]"

definition height_message :: string where
  "height_message =
     [CHR 0xE8, CHR 0xAF, CHR 0xB7, CHR 0xE8, CHR 0xBE, CHR 0x93, CHR 0xE5, CHR 0x85, CHR 0xA5,
      CHR 0xE6, CHR 0x9C, CHR 0x89, CHR 0xE6, CHR 0x95, CHR 0x88, CHR 0xE7, CHR 0x9A, CHR 0x84,
      CHR 0xE8, CHR 0xBA, CHR 0xAB, CHR 0xE9, CHR 0xAB, CHR 0x98, CHR 0xEF, CHR 0xBC, CHR 0x88] @
     ''50-250'' @
     [CHR 0xE5, CHR 0x8E, CHR 0x98, CHR 0xE7, CHR 0xB1, CHR 0xB3, CHR 0xEF, CHR 0xBC, CHR 0x89]"

definition weight_message :: string where
  "weight_message =
     [CHR 0xE8, CHR 0xAF, CHR 0xB7, CHR 0xE8, CHR 0xBE, CHR 0x93, CHR 0xE5, CHR 0x85, CHR 0xA5,
      CHR 0xE6, CHR 0x9C, CHR 0x89, CHR 0xE6, CHR 0x95, CHR 0x88, CHR 0xE7, CHR 0x9A, CHR 0x84,
      CHR 0xE4, CHR 0xBD, CHR 0x93, CHR 0xE9, CHR 0x87, CHR 0x8D, CHR 0xEF, CHR 0xBC, CHR 0x88] @
     ''20-300'' @
     [CHR 0xE5, CHR 0x85, CHR 0xAC, CHR 0xE6, CHR 0x96, CHR 0xA4, CHR 0xEF, CHR 0xBC, CHR 0x89]"

subsection \<open>calculateBMR\<close>

text \<open>
  \<^verbatim>\<open>if (gender === 'male') { bmr = 88.362 + (13.397 * weight) + (4.799 * height) - (5.677 * age); }\<close>
  \<^verbatim>\<open>else { bmr = 447.593 + (9.247 * weight) + (3.098 * height) - (4.330 * age); }\<close>
  \<^verbatim>\<open>return Math.round(bmr);\<close>
  Addition and subtraction associate to the left. The gender is a string and the other
  three parameters are Numbers, as the documentation of the function has them and as
  \<open>performCalculation\<close> passes them. The body has no statement that throws.
\<close>

definition calculateBMR :: "string \<Rightarrow> jsnum \<Rightarrow> jsnum \<Rightarrow> jsnum \<Rightarrow> jsnum" where
  "calculateBMR gender age height weight =
     (let bmr =
        (if gender = ''male''
         then js_sub
                (js_add
                  (js_add (number_literal (88362 / 1000))
                          (js_mul (number_literal (13397 / 1000)) weight))
                  (js_mul (number_literal (4799 / 1000)) height))
                (js_mul (number_literal (5677 / 1000)) age)
         else js_sub
                (js_add
                  (js_add (number_literal (447593 / 1000))
                          (js_mul (number_literal (9247 / 1000)) weight))
                  (js_mul (number_literal (3098 / 1000)) height))
                (js_mul (number_literal (4330 / 1000)) age))
      in Math_round bmr)"

subsection \<open>validateInputs\<close>

record validation =
  isValid :: bool
  message :: string

text \<open>
  \<^verbatim>\<open>if (!age || age < 1 || age > 120) return { isValid: false, message: ... };\<close>
  and the same for height (50, 250) and weight (20, 300), in this order; then
  \<^verbatim>\<open>return { isValid: true, message: '' };\<close>
\<close>

definition validateInputs :: "jsnum \<Rightarrow> jsnum \<Rightarrow> jsnum \<Rightarrow> validation" where
  "validateInputs age height weight =
     (if js_not age \<or> js_lt age (number_literal 1) \<or> js_gt age (number_literal 120)
      then \<lparr>isValid = False, message = age_message\<rparr>
      else if js_not height \<or> js_lt height (number_literal 50) \<or> js_gt height (number_literal 250)
      then \<lparr>isValid = False, message = height_message\<rparr>
      else if js_not weight \<or> js_lt weight (number_literal 20) \<or> js_gt weight (number_literal 300)
      then \<lparr>isValid = False, message = weight_message\<rparr>
      else \<lparr>isValid = True, message = []\<rparr>)"

subsection \<open>The page and performCalculation\<close>









section \<open>The specification's words\<close>

subsection \<open>The Harris-Benedict reference formula\<close>

text \<open>
  "A linear formula estimating BMR from weight, height, age, and a gender-specific
  constant/coefficient set": male \<open>88.362 + 13.397 \<times> weight + 4.799 \<times> height - 5.677 \<times> age\<close>,
  female (that is, not male) \<open>447.593 + 9.247 \<times> weight + 3.098 \<times> height - 4.330 \<times> age\<close>.
  The formula is evaluated in the arithmetic of the runtime, from left to right.
\<close>

record coefficients =
  base :: rat
  per_kg :: rat
  per_cm :: rat
  per_year :: rat

definition male_coefficients :: coefficients where
  "male_coefficients =
     \<lparr>base = 88362 / 1000, per_kg = 13397 / 1000, per_cm = 4799 / 1000, per_year = 5677 / 1000\<rparr>"

definition female_coefficients :: coefficients where
  "female_coefficients =
     \<lparr>base = 447593 / 1000, per_kg = 9247 / 1000, per_cm = 3098 / 1000, per_year = 4330 / 1000\<rparr>"

definition coefficients_of :: "string \<Rightarrow> coefficients" where
  "coefficients_of gender = (if gender = ''male'' then male_coefficients else female_coefficients)"

definition harris_benedict :: "coefficients \<Rightarrow> jsnum \<Rightarrow> jsnum \<Rightarrow> jsnum \<Rightarrow> jsnum" where
  "harris_benedict c age height weight =
     js_sub
       (js_add
         (js_add (number_literal (base c)) (js_mul (number_literal (per_kg c)) weight))
         (js_mul (number_literal (per_cm c)) height))
       (js_mul (number_literal (per_year c)) age)"

text \<open>The same formula in exact arithmetic, on finite arguments.\<close>

definition exact_formula :: "coefficients \<Rightarrow> rat \<Rightarrow> rat \<Rightarrow> rat \<Rightarrow> rat" where
  "exact_formula c age height weight =
     base c + per_kg c * weight + per_cm c * height - per_year c * age"

subsection \<open>The validation rules\<close>

text \<open>
  "Rules, checked in order, first failure wins": a field fails its rule when it is
  missing (NaN, or the zero that the falsy test takes for missing), below its lower
  bound or above its upper bound; the bounds are 1 and 120, 50 and 250, 20 and 300.
\<close>

datatype field = Age | Height | Weight

fun lower_bound :: "field \<Rightarrow> rat" where
  "lower_bound Age = 1"
| "lower_bound Height = 50"
| "lower_bound Weight = 20"

fun upper_bound :: "field \<Rightarrow> rat" where
  "upper_bound Age = 120"
| "upper_bound Height = 250"
| "upper_bound Weight = 300"

fun field_message :: "field \<Rightarrow> string" where
  "field_message Age = age_message"
| "field_message Height = height_message"
| "field_message Weight = weight_message"

fun rule_fails :: "field \<Rightarrow> jsnum \<Rightarrow> bool" where
  "rule_fails f (Fin q) = (q = 0 \<or> q < lower_bound f \<or> upper_bound f < q)"
| "rule_fails f x = True"

text \<open>The fields that fail their rule, in the order of the rules.\<close>

definition failing_fields :: "jsnum \<Rightarrow> jsnum \<Rightarrow> jsnum \<Rightarrow> field list" where
  "failing_fields age height weight =
     filter (\<lambda>f. rule_fails f (case f of Age \<Rightarrow> age | Height \<Rightarrow> height | Weight \<Rightarrow> weight))
       [Age, Height, Weight]"

text \<open>The age message as the specification quotes it, in English with an en dash.\<close>

definition quoted_age_message :: string where
  "quoted_age_message =
     ''please enter a valid age (1'' @ [CHR 0xE2, CHR 0x80, CHR 0x93] @ ''120)''"

subsection \<open>The tagged result\<close>


subsection \<open>A call as a step on the page\<close>


subsection \<open>An example page\<close>



section \<open>Facts about binary64 rounding\<close>

subsection \<open>The exponent search\<close>

lemma find_e_ge: "s \<le> find_e q s"
proof (induction q s rule: find_e.induct)
  case (1 q e)
  show ?case
  proof (cases "q < 2 powi (e + 53)")
    case True
    then show ?thesis by (simp add: find_e.simps [of q e])
  next
    case False
    with 1 have "e + 1 \<le> find_e q (e + 1)" by simp
    with False show ?thesis by (simp add: find_e.simps [of q e])
  qed
qed

lemma find_e_less: "q < 2 powi (find_e q s + 53)"
proof (induction q s rule: find_e.induct)
  case (1 q e)
  show ?case
  proof (cases "q < 2 powi (e + 53)")
    case True
    then show ?thesis by (simp add: find_e.simps [of q e])
  next
    case False
    with 1 have "q < 2 powi (find_e q (e + 1) + 53)" by simp
    with False show ?thesis by (simp add: find_e.simps [of q e])
  qed
qed

lemma find_e_above: "s < find_e q s \<Longrightarrow> 2 powi (find_e q s + 52) \<le> q"
proof (induction q s rule: find_e.induct)
  case (1 q e)
  show ?case
  proof (cases "q < 2 powi (e + 53)")
    case True
    with 1(2) show ?thesis by (simp add: find_e.simps [of q e])
  next
    case False
    then have eq: "find_e q e = find_e q (e + 1)" by (simp add: find_e.simps [of q e])
    show ?thesis
    proof (cases "e + 1 < find_e q (e + 1)")
      case True
      with 1(1) False eq show ?thesis by simp
    next
      case False
      with find_e_ge [of "e + 1" q] have "find_e q (e + 1) = e + 1" by simp
      with eq \<open>\<not> q < 2 powi (e + 53)\<close> show ?thesis by (simp add: add.commute)
    qed
  qed
qed

lemma find_e_unique:
  assumes "s \<le> e" and "q < 2 powi (e + 53)" and "e = s \<or> 2 powi (e + 52) \<le> q"
  shows "find_e q s = e"
proof (rule antisym)
  show "find_e q s \<le> e"
  proof (rule ccontr)
    assume "\<not> find_e q s \<le> e"
    then have lt: "e < find_e q s" by simp
    with assms(1) have "s < find_e q s" by simp
    then have "2 powi (find_e q s + 52) \<le> q" by (rule find_e_above)
    moreover have "(2::rat) powi (e + 53) \<le> 2 powi (find_e q s + 52)"
      using lt by (intro power_int_increasing) simp_all
    ultimately show False using assms(2) by simp
  qed
next
  show "e \<le> find_e q s"
  proof (rule ccontr)
    assume "\<not> e \<le> find_e q s"
    then have lt: "find_e q s < e" by simp
    with find_e_ge [of s q] assms(3) have "2 powi (e + 52) \<le> q" by auto
    moreover have "(2::rat) powi (find_e q s + 53) \<le> 2 powi (e + 52)"
      using lt by (intro power_int_increasing) simp_all
    ultimately show False using find_e_less [of q s] by simp
  qed
qed


lemma find_e_mono: "q1 \<le> q2 \<Longrightarrow> find_e q1 s \<le> find_e q2 s"
proof (rule ccontr)
  assume le: "q1 \<le> q2" and "\<not> find_e q1 s \<le> find_e q2 s"
  then have lt: "find_e q2 s < find_e q1 s" by simp
  with find_e_ge [of s q2] have "s < find_e q1 s" by simp
  then have "2 powi (find_e q1 s + 52) \<le> q1" by (rule find_e_above)
  moreover have "(2::rat) powi (find_e q2 s + 53) \<le> 2 powi (find_e q1 s + 52)"
    using lt by (intro power_int_increasing) simp_all
  ultimately show False using find_e_less [of q2 s] le by simp
qed

subsection \<open>Rounding to an integer\<close>

lemma round_half_even_bounds: "\<lfloor>x\<rfloor> \<le> round_half_even x \<and> round_half_even x \<le> \<lfloor>x\<rfloor> + 1"
  by (simp add: round_half_even_def Let_def)

lemma round_half_even_of_int [simp]: "round_half_even (of_int n) = n"
  by (simp add: round_half_even_def)

lemma round_half_even_mono:
  assumes "x \<le> y"
  shows "round_half_even x \<le> round_half_even y"
proof (cases "\<lfloor>x\<rfloor> < \<lfloor>y\<rfloor>")
  case True
  have "round_half_even x \<le> \<lfloor>x\<rfloor> + 1" using round_half_even_bounds by blast
  also have "\<dots> \<le> \<lfloor>y\<rfloor>" using True by simp
  also have "\<dots> \<le> round_half_even y" using round_half_even_bounds by blast
  finally show ?thesis .
next
  case False
  with assms have eq: "\<lfloor>x\<rfloor> = \<lfloor>y\<rfloor>" using floor_mono [of x y] by simp
  with assms have "x - of_int \<lfloor>x\<rfloor> \<le> y - of_int \<lfloor>y\<rfloor>" by simp
  then show ?thesis unfolding round_half_even_def Let_def eq by auto
qed


lemma round_half_even_eqI:
  assumes "of_int m - 1 / 2 < x" and "x < of_int m + 1 / 2"
  shows "round_half_even x = m"
proof (cases "of_int m \<le> x")
  case True
  with assms(2) have "\<lfloor>x\<rfloor> = m" by (intro floor_unique) simp_all
  with assms(2) show ?thesis by (simp add: round_half_even_def)
next
  case False
  with assms(1) have "\<lfloor>x\<rfloor> = m - 1" by (intro floor_unique) simp_all
  with assms(1) show ?thesis by (simp add: round_half_even_def)
qed

lemma round_half_even_tieI:
  assumes "x = of_int f + 1 / 2" and "even m" and "m = f \<or> m = f + 1"
  shows "round_half_even x = m"
proof -
  have "\<lfloor>x\<rfloor> = f" unfolding assms(1) by (intro floor_unique) simp_all
  with assms show ?thesis by (auto simp: round_half_even_def)
qed

subsection \<open>Rounding a magnitude\<close>

lemma round_mag_nonneg: "0 \<le> q \<Longrightarrow> 0 \<le> round_mag q"
proof -
  assume "0 \<le> q"
  then have "0 \<le> q / 2 powi find_e q (- 1074)" by (simp add: zero_le_power_int)
  then have "0 \<le> \<lfloor>q / 2 powi find_e q (- 1074)\<rfloor>" by simp
  then have "0 \<le> round_half_even (q / 2 powi find_e q (- 1074))"
    using round_half_even_bounds [of "q / 2 powi find_e q (- 1074)"] by linarith
  then show ?thesis by (simp add: round_mag_def Let_def zero_le_power_int)
qed


text \<open>Rounding is monotone, within a grid and from one grid to the next.\<close>

lemma round_mag_mono:
  assumes "q1 \<le> q2"
  shows "round_mag q1 \<le> round_mag q2"
proof -
  define e1 where "e1 = find_e q1 (- 1074)"
  define e2 where "e2 = find_e q2 (- 1074)"
  have pos1: "(0::rat) < 2 powi e1" and pos2: "(0::rat) < 2 powi e2"
    by (simp_all add: zero_less_power_int)
  have le: "e1 \<le> e2" unfolding e1_def e2_def using assms by (rule find_e_mono)
  show ?thesis
  proof (cases "e1 = e2")
    case True
    have "q1 / 2 powi e2 \<le> q2 / 2 powi e2"
      using assms pos2 by (simp add: divide_right_mono)
    then have "round_half_even (q1 / 2 powi e2) \<le> round_half_even (q2 / 2 powi e2)"
      by (rule round_half_even_mono)
    then have "(of_int (round_half_even (q1 / 2 powi e2)) :: rat) * 2 powi e2
        \<le> of_int (round_half_even (q2 / 2 powi e2)) * 2 powi e2"
      using pos2 by (simp add: mult_right_mono)
    with True show ?thesis by (simp add: round_mag_def Let_def e1_def e2_def)
  next
    case False
    with le have lt: "e1 < e2" by simp
    have "q1 < 2 powi (e1 + 53)" unfolding e1_def by (rule find_e_less)
    then have "q1 / 2 powi e1 < 2 powi 53"
      using pos1 by (simp add: power_int_add pos_divide_less_eq mult.commute)
    then have "q1 / 2 powi e1 \<le> of_int (2 ^ 53)" by simp
    then have "round_half_even (q1 / 2 powi e1) \<le> round_half_even (of_int (2 ^ 53))"
      by (rule round_half_even_mono)
    then have "round_half_even (q1 / 2 powi e1) \<le> 2 ^ 53" by (simp only: round_half_even_of_int)
    then have "(of_int (round_half_even (q1 / 2 powi e1)) :: rat) \<le> of_int (2 ^ 53)"
      by (simp only: of_int_le_iff)
    then have "(of_int (round_half_even (q1 / 2 powi e1)) :: rat) * 2 powi e1 \<le> 2 powi 53 * 2 powi e1"
      using pos1 by (simp add: mult_right_mono)
    then have up: "round_mag q1 \<le> 2 powi (e1 + 53)"
      by (simp add: round_mag_def Let_def e1_def power_int_add mult.commute)
    have "- 1074 < e2" using lt find_e_ge [of "- 1074" q1] by (simp add: e1_def)
    then have "2 powi (e2 + 52) \<le> q2" unfolding e2_def by (rule find_e_above)
    then have "2 powi 52 \<le> q2 / 2 powi e2"
      using pos2 by (simp add: power_int_add pos_le_divide_eq mult.commute)
    then have "of_int (2 ^ 52) \<le> q2 / 2 powi e2" by simp
    then have "round_half_even (of_int (2 ^ 52)) \<le> round_half_even (q2 / 2 powi e2)"
      by (rule round_half_even_mono)
    then have "2 ^ 52 \<le> round_half_even (q2 / 2 powi e2)" by (simp only: round_half_even_of_int)
    then have "(of_int (2 ^ 52) :: rat) \<le> of_int (round_half_even (q2 / 2 powi e2))"
      by (simp only: of_int_le_iff)
    then have "2 powi 52 * 2 powi e2 \<le> (of_int (round_half_even (q2 / 2 powi e2)) :: rat) * 2 powi e2"
      using pos2 by (simp add: mult_right_mono)
    then have lo: "2 powi (e2 + 52) \<le> round_mag q2"
      by (simp add: round_mag_def Let_def e2_def power_int_add mult.commute)
    have "(2::rat) powi (e1 + 53) \<le> 2 powi (e2 + 52)"
      using lt by (intro power_int_increasing) simp_all
    with up lo show ?thesis by linarith
  qed
qed

lemma round_mag_exact:
  assumes "- 1074 \<le> e" and "q < 2 powi (e + 53)" and "e = - 1074 \<or> 2 powi (e + 52) \<le> q"
    and "round_half_even (q / 2 powi e) = m"
  shows "round_mag q = of_int m * 2 powi e"
  using find_e_unique [OF assms(1-3)] assms(4) by (simp add: round_mag_def)


lemma to_double_mag_exact:
  assumes "- 1074 \<le> e" and "q < 2 powi (e + 53)" and "e = - 1074 \<or> 2 powi (e + 52) \<le> q"
    and "round_half_even (q / 2 powi e) = m" and "r = of_int m * 2 powi e" and "r < 2 ^ 1024"
  shows "to_double_mag q = Fin r"
  using round_mag_exact [OF assms(1-4)] assms(5,6) by (simp add: to_double_mag_def)

lemma to_double_exact:
  assumes "0 \<le> q" and "- 1074 \<le> e" and "q < 2 powi (e + 53)" and "e = - 1074 \<or> 2 powi (e + 52) \<le> q"
    and "round_half_even (q / 2 powi e) = m" and "r = of_int m * 2 powi e" and "r < 2 ^ 1024"
  shows "to_double q = Fin r"
  using to_double_mag_exact [OF assms(2-7)] assms(1) by (simp add: to_double_def)

lemma to_double_near:
  assumes "0 \<le> q" and "- 1074 \<le> e" and "q < 2 powi (e + 53)" and "e = - 1074 \<or> 2 powi (e + 52) \<le> q"
    and "of_int m - 1 / 2 < q / 2 powi e" and "q / 2 powi e < of_int m + 1 / 2"
    and "r = of_int m * 2 powi e" and "r < 2 ^ 1024"
  shows "to_double q = Fin r"
  using to_double_exact [OF assms(1-4) round_half_even_eqI [OF assms(5,6)] assms(7,8)] .


lemma to_double_tie:
  assumes "0 \<le> q" and "- 1074 \<le> e" and "q < 2 powi (e + 53)" and "e = - 1074 \<or> 2 powi (e + 52) \<le> q"
    and "q / 2 powi e = of_int f + 1 / 2" and "even m" and "m = f \<or> m = f + 1"
    and "r = of_int m * 2 powi e" and "r < 2 ^ 1024"
  shows "to_double q = Fin r"
  using to_double_exact [OF assms(1-4) round_half_even_tieI [OF assms(5-7)] assms(8,9)] .

lemma Math_round_eqI:
  assumes "of_int n \<le> q + 1 / 2" and "q + 1 / 2 < of_int n + 1" and "r = of_int n"
  shows "Math_round (Fin q) = Fin r"
proof -
  have "\<lfloor>q + 1 / 2\<rfloor> = n" using assms(1,2) by (intro floor_unique) simp_all
  with assms(3) show ?thesis by simp
qed

lemma round_mag_zero: "round_mag 0 = 0"
  by (simp add: round_mag_def round_half_even_def)

lemma round_mag_pow2:
  assumes "- 1022 \<le> k"
  shows "round_mag (2 powi k) = 2 powi k"
proof -
  have "(2::rat) powi k < 2 powi (k - 52 + 53)"
    by (intro power_int_strict_increasing) simp_all
  moreover have "(2::rat) powi (k - 52 + 52) \<le> 2 powi k" by simp
  moreover have "round_half_even (2 powi k / 2 powi (k - 52)) = 2 ^ 52"
  proof -
    have "(2::rat) powi k / 2 powi (k - 52) = 2 powi 52"
      by (simp add: power_int_diff)
    also have "\<dots> = of_int (2 ^ 52)" by simp
    finally show ?thesis by (simp only: round_half_even_of_int)
  qed
  ultimately have "round_mag (2 powi k) = of_int (2 ^ 52) * 2 powi (k - 52)"
    using assms by (intro round_mag_exact) simp_all
  also have "\<dots> = 2 powi 52 * 2 powi (k - 52)" by simp
  also have "\<dots> = 2 powi k" by (simp add: power_int_diff)
  finally show ?thesis .
qed

lemma to_double_mag_not_NaN: "to_double_mag q \<noteq> NaN"
  by (simp add: to_double_mag_def Let_def)

lemma to_double_not_NaN [simp]: "to_double q \<noteq> NaN"
proof -
  have "js_neg x \<noteq> NaN" if "x \<noteq> NaN" for x using that by (cases x) simp_all
  then show ?thesis by (simp add: to_double_def to_double_mag_not_NaN)
qed

lemma to_double_zero [simp]: "to_double 0 = Fin 0"
  by (simp add: to_double_def to_double_mag_def round_mag_zero)

text \<open>A magnitude of at most \<open>2 ^ n\<close>, \<open>n \<le> 1023\<close>, rounds to a finite value of at most \<open>2 ^ n\<close>.\<close>

lemma to_double_mag_bounded:
  assumes "0 \<le> q" and "q \<le> 2 ^ n" and "n \<le> 1023"
  shows "\<exists>r. to_double_mag q = Fin r \<and> 0 \<le> r \<and> r \<le> 2 ^ n"
proof -
  have "round_mag q \<le> round_mag (2 powi int n)"
    using assms(2) by (intro round_mag_mono) simp
  also have "\<dots> = 2 ^ n" using round_mag_pow2 [of "int n"] by simp
  finally have le: "round_mag q \<le> 2 ^ n" .
  also have "(2::rat) ^ n < 2 ^ 1024" using assms(3) by (intro power_strict_increasing) simp_all
  finally have "\<not> 2 ^ 1024 \<le> round_mag q" by simp
  with le round_mag_nonneg [OF assms(1)] show ?thesis by (simp add: to_double_mag_def)
qed

lemma to_double_bounded:
  assumes "\<bar>q\<bar> \<le> 2 ^ n" and "n \<le> 1023"
  shows "\<exists>r. to_double q = Fin r \<and> \<bar>r\<bar> \<le> 2 ^ n"
proof (cases "q < 0")
  case True
  with assms(1) have "0 \<le> - q" "- q \<le> 2 ^ n" by simp_all
  from to_double_mag_bounded [OF this assms(2)] True show ?thesis
    by (auto simp: to_double_def)
next
  case False
  with assms(1) have "0 \<le> q" "q \<le> 2 ^ n" by simp_all
  from to_double_mag_bounded [OF this assms(2)] False show ?thesis
    by (auto simp: to_double_def)
qed

text \<open>From \<open>2 ^ 1024\<close> on, rounding overflows.\<close>

lemma to_double_overflow:
  assumes "2 ^ 1024 \<le> q"
  shows "to_double q = PInf"
proof -
  have "round_mag (2 powi 1024) \<le> round_mag q"
    using assms by (intro round_mag_mono) simp
  moreover have "round_mag (2 powi 1024) = 2 powi 1024" by (rule round_mag_pow2) simp
  ultimately have "2 ^ 1024 \<le> round_mag q" by simp
  moreover have "(0::rat) < 2 ^ 1024" by simp
  with assms have "\<not> q < 0" by linarith
  ultimately show ?thesis by (simp add: to_double_def to_double_mag_def)
qed

lemma to_double_underflow:
  assumes "q \<le> - (2 ^ 1024)"
  shows "to_double q = NInf"
proof -
  have "round_mag (2 powi 1024) \<le> round_mag (- q)"
    using assms by (intro round_mag_mono) simp
  moreover have "round_mag (2 powi 1024) = 2 powi 1024" by (rule round_mag_pow2) simp
  ultimately have "2 ^ 1024 \<le> round_mag (- q)" by simp
  moreover have "(0::rat) < 2 ^ 1024" by simp
  with assms have "q < 0" by linarith
  ultimately show ?thesis by (simp add: to_double_def to_double_mag_def)
qed



text \<open>
  The rounded values are fixed points: a value on the grid rounds to itself, so the
  results of \<open>to_double\<close> are the binary64 values.
\<close>

lemma round_mag_idem:
  assumes "0 \<le> q"
  shows "round_mag (round_mag q) = round_mag q"
proof -
  define e where "e = find_e q (- 1074)"
  define m where "m = round_half_even (q / 2 powi e)"
  have pos: "(0::rat) < 2 powi e" by (simp add: zero_less_power_int)
  have r: "round_mag q = of_int m * 2 powi e" by (simp add: round_mag_def Let_def e_def m_def)
  have e_ge: "- 1074 \<le> e" unfolding e_def by (rule find_e_ge)
  have "q < 2 powi (e + 53)" unfolding e_def by (rule find_e_less)
  then have "q / 2 powi e < 2 powi 53"
    using pos by (simp add: power_int_add pos_divide_less_eq mult.commute)
  then have "q / 2 powi e \<le> of_int (2 ^ 53)" by simp
  then have "round_half_even (q / 2 powi e) \<le> round_half_even (of_int (2 ^ 53))"
    by (rule round_half_even_mono)
  then have m_le: "m \<le> 2 ^ 53" by (simp only: m_def round_half_even_of_int)
  show ?thesis
  proof (cases "m = 2 ^ 53")
    case True
    then have "round_mag q = 2 powi 53 * 2 powi e" by (simp add: r)
    also have "\<dots> = 2 powi (e + 53)" by (simp add: power_int_add mult.commute)
    finally have "round_mag q = 2 powi (e + 53)" .
    moreover have "round_mag (2 powi (e + 53)) = 2 powi (e + 53)"
      using e_ge by (intro round_mag_pow2) simp
    ultimately show ?thesis by simp
  next
    case False
    with m_le have "m < 2 ^ 53" by simp
    then have "(of_int m :: rat) < of_int (2 ^ 53)" by (simp only: of_int_less_iff)
    then have "(of_int m :: rat) * 2 powi e < 2 powi 53 * 2 powi e"
      using pos by (simp add: mult_strict_right_mono)
    then have less: "of_int m * 2 powi e < (2::rat) powi (e + 53)"
      by (simp add: power_int_add mult.commute)
    have above: "e = - 1074 \<or> 2 powi (e + 52) \<le> (of_int m :: rat) * 2 powi e"
    proof (cases "e = - 1074")
      case False
      with e_ge have "- 1074 < find_e q (- 1074)" by (simp add: e_def)
      then have "2 powi (e + 52) \<le> q" unfolding e_def by (rule find_e_above)
      then have "2 powi 52 \<le> q / 2 powi e"
        using pos by (simp add: power_int_add pos_le_divide_eq mult.commute)
      then have "of_int (2 ^ 52) \<le> q / 2 powi e" by simp
      then have "round_half_even (of_int (2 ^ 52)) \<le> round_half_even (q / 2 powi e)"
        by (rule round_half_even_mono)
      then have "2 ^ 52 \<le> m" by (simp only: m_def round_half_even_of_int)
      then have "(of_int (2 ^ 52) :: rat) \<le> of_int m" by (simp only: of_int_le_iff)
      then have "2 powi 52 * 2 powi e \<le> (of_int m :: rat) * 2 powi e"
        using pos by (simp add: mult_right_mono)
      then show ?thesis by (simp add: power_int_add mult.commute)
    qed simp
    have "round_half_even (of_int m * 2 powi e / 2 powi e) = m"
      using pos by simp
    with e_ge less above have "round_mag (of_int m * 2 powi e) = of_int m * 2 powi e"
      by (intro round_mag_exact) simp_all
    then show ?thesis by (simp add: r)
  qed
qed

lemma to_double_idem:
  assumes "to_double q = Fin r"
  shows "to_double r = Fin r"
proof (cases "q < 0")
  case False
  with assms have r: "r = round_mag q" and fin: "\<not> 2 ^ 1024 \<le> round_mag q"
    by (simp_all add: to_double_def to_double_mag_def Let_def split: if_splits)
  from False have "0 \<le> r" unfolding r by (intro round_mag_nonneg) simp
  moreover from False have "round_mag r = r" unfolding r by (intro round_mag_idem) simp
  ultimately show ?thesis using fin r by (simp add: to_double_def to_double_mag_def)
next
  case True
  with assms have r: "r = - round_mag (- q)" and fin: "\<not> 2 ^ 1024 \<le> round_mag (- q)"
    by (auto simp: to_double_def to_double_mag_def Let_def split: if_splits)
  from True have nonneg: "0 \<le> round_mag (- q)" by (intro round_mag_nonneg) simp
  from True have idem: "round_mag (round_mag (- q)) = round_mag (- q)"
    by (intro round_mag_idem) simp
  show ?thesis
  proof (cases "r = 0")
    case True
    then show ?thesis by simp
  next
    case False
    with nonneg r have "r < 0" by simp
    then show ?thesis using idem fin r by (simp add: to_double_def to_double_mag_def)
  qed
qed

subsection \<open>Order\<close>

lemma js_le_refl: "x \<noteq> NaN \<Longrightarrow> js_le x x"
  by (cases x) (simp_all add: js_le_def)

lemma js_le_Fin [simp]: "js_le (Fin x) (Fin y) \<longleftrightarrow> x \<le> y"
  by (auto simp: js_le_def)

lemma js_le_NInf [simp]: "js_le NInf y \<longleftrightarrow> y \<noteq> NaN"
  by (cases y) (simp_all add: js_le_def)

lemma js_le_PInf [simp]: "js_le x PInf \<longleftrightarrow> x \<noteq> NaN"
  by (cases x) (simp_all add: js_le_def)

lemma js_le_not_NaN: "js_le x y \<Longrightarrow> x \<noteq> NaN \<and> y \<noteq> NaN"
  by (simp add: js_le_def)

lemma js_neg_antimono: "js_le x y \<Longrightarrow> js_le (js_neg y) (js_neg x)"
  by (cases x; cases y) (simp_all add: js_le_def)

lemma to_double_mag_mono: "q1 \<le> q2 \<Longrightarrow> js_le (to_double_mag q1) (to_double_mag q2)"
  using round_mag_mono [of q1 q2] by (simp add: to_double_mag_def Let_def)

lemma to_double_mag_nonneg: "0 \<le> q \<Longrightarrow> js_le (Fin 0) (to_double_mag q)"
  using round_mag_nonneg [of q] by (simp add: to_double_mag_def Let_def)

lemma to_double_mono:
  assumes "q1 \<le> q2"
  shows "js_le (to_double q1) (to_double q2)"
proof -
  consider "0 \<le> q1" | "q2 < 0" | "q1 < 0" "0 \<le> q2" by linarith
  then show ?thesis
  proof cases
    case 1
    with assms show ?thesis by (simp add: to_double_def to_double_mag_mono)
  next
    case 2
    with assms have "js_le (to_double_mag (- q2)) (to_double_mag (- q1))"
      by (intro to_double_mag_mono) simp
    then have "js_le (js_neg (to_double_mag (- q1))) (js_neg (to_double_mag (- q2)))"
      by (rule js_neg_antimono)
    with 2 assms show ?thesis by (simp add: to_double_def)
  next
    case 3
    then have a: "js_le (Fin 0) (to_double_mag (- q1))" and b: "js_le (Fin 0) (to_double_mag q2)"
      by (simp_all add: to_double_mag_nonneg)
    from a have "js_le (js_neg (to_double_mag (- q1))) (Fin 0)"
      using js_neg_antimono [of "Fin 0" "to_double_mag (- q1)"] by simp
    with b have "js_le (js_neg (to_double_mag (- q1))) (to_double_mag q2)"
      by (cases "to_double_mag (- q1)"; cases "to_double_mag q2") (simp_all add: js_le_def)
    with 3 show ?thesis by (simp add: to_double_def)
  qed
qed

section \<open>Evaluation\<close>

subsection \<open>The literals of the script\<close>

text \<open>
  Each decimal literal as the binary64 value it denotes, a fraction in lowest terms
  with a power of two below; the integer literals are exact.
\<close>

lemma lit_88362: "number_literal (88362 / 1000) = Fin (3108961486513373 / 35184372088832)"
  unfolding number_literal_def by (rule to_double_near [where e = "- 46" and m = 6217922973026746]; simp)

lemma lit_13397: "number_literal (13397 / 1000) = Fin (7541840525985317 / 562949953421312)"
  unfolding number_literal_def by (rule to_double_near [where e = "- 49" and m = 7541840525985317]; simp)

lemma lit_4799: "number_literal (4799 / 1000) = Fin (5403193652937753 / 1125899906842624)"
  unfolding number_literal_def by (rule to_double_near [where e = "- 50" and m = 5403193652937753]; simp)

lemma lit_5677: "number_literal (5677 / 1000) = Fin (798966721393197 / 140737488355328)"
  unfolding number_literal_def by (rule to_double_near [where e = "- 50" and m = 6391733771145576]; simp)

lemma lit_447593: "number_literal (447593 / 1000) = Fin (7874139328178291 / 17592186044416)"
  unfolding number_literal_def by (rule to_double_near [where e = "- 44" and m = 7874139328178291]; simp)

lemma lit_9247: "number_literal (9247 / 1000) = Fin (650699777410859 / 70368744177664)"
  unfolding number_literal_def by (rule to_double_near [where e = "- 49" and m = 5205598219286872]; simp)

lemma lit_3098: "number_literal (3098 / 1000) = Fin (3488037911398449 / 1125899906842624)"
  unfolding number_literal_def by (rule to_double_near [where e = "- 51" and m = 6976075822796898]; simp)

lemma lit_4330: "number_literal (4330 / 1000) = Fin (2437573298314281 / 562949953421312)"
  unfolding number_literal_def by (rule to_double_near [where e = "- 50" and m = 4875146596628562]; simp)

lemma lit_1 [simp]: "number_literal 1 = Fin 1"
  unfolding number_literal_def by (rule to_double_near [where e = "- 52" and m = 4503599627370496]; simp)

lemma lit_120 [simp]: "number_literal 120 = Fin 120"
  unfolding number_literal_def by (rule to_double_near [where e = "- 46" and m = 8444249301319680]; simp)

lemma lit_50 [simp]: "number_literal 50 = Fin 50"
  unfolding number_literal_def by (rule to_double_near [where e = "- 47" and m = 7036874417766400]; simp)

lemma lit_250 [simp]: "number_literal 250 = Fin 250"
  unfolding number_literal_def by (rule to_double_near [where e = "- 45" and m = 8796093022208000]; simp)

lemma lit_20 [simp]: "number_literal 20 = Fin 20"
  unfolding number_literal_def by (rule to_double_near [where e = "- 48" and m = 5629499534213120]; simp)

lemma lit_300 [simp]: "number_literal 300 = Fin 300"
  unfolding number_literal_def by (rule to_double_near [where e = "- 44" and m = 5277655813324800]; simp)

lemma female_not_male: "(''female'' = ''male'') = False"
  by simp

section \<open>Facts about the operators\<close>

subsection \<open>NaN is contagious\<close>

lemma js_add_NaN_right [simp]: "js_add x NaN = NaN"
  by (cases x) simp_all

lemma js_mul_NaN_right [simp]: "js_mul x NaN = NaN"
  by (cases x) simp_all

lemma js_neg_eq_NaN [simp]: "js_neg x = NaN \<longleftrightarrow> x = NaN"
  by (cases x) simp_all

lemma Math_round_eq_NaN [simp]: "Math_round x = NaN \<longleftrightarrow> x = NaN"
  by (cases x) simp_all

lemma js_add_not_NaN: "js_add x y \<noteq> NaN \<Longrightarrow> x \<noteq> NaN \<and> y \<noteq> NaN"
  by (cases x; cases y) simp_all

lemma js_sub_not_NaN: "js_sub x y \<noteq> NaN \<Longrightarrow> x \<noteq> NaN \<and> y \<noteq> NaN"
  using js_add_not_NaN [of x "js_neg y"] by (simp add: js_sub_def)

subsection \<open>Monotonicity of the operators\<close>

lemma js_lt_NInf_right [simp]: "js_lt x NInf = False"
  by (cases x) simp_all

lemma js_lt_PInf_left [simp]: "js_lt PInf y = False"
  by (cases y) simp_all

lemma js_mul_mono:
  assumes "0 < c" and "js_le x y"
  shows "js_le (js_mul (Fin c) x) (js_mul (Fin c) y)"
proof (cases x; cases y)
  fix a b assume "x = Fin a" "y = Fin b"
  with assms show ?thesis by (simp add: to_double_mono)
qed (use assms in \<open>simp_all add: js_le_def\<close>)

lemma js_add_mono_left:
  assumes "js_le x1 x2" and "js_add x1 y \<noteq> NaN" and "js_add x2 y \<noteq> NaN"
  shows "js_le (js_add x1 y) (js_add x2 y)"
proof (cases x1; cases x2; cases y)
  fix a b c assume "x1 = Fin a" "x2 = Fin b" "y = Fin c"
  with assms show ?thesis by (simp add: to_double_mono)
qed (use assms in \<open>simp_all add: js_le_def\<close>)

lemma js_add_mono_right:
  assumes "js_le y1 y2" and "js_add x y1 \<noteq> NaN" and "js_add x y2 \<noteq> NaN"
  shows "js_le (js_add x y1) (js_add x y2)"
proof (cases y1; cases y2; cases x)
  fix a b c assume "y1 = Fin a" "y2 = Fin b" "x = Fin c"
  with assms show ?thesis by (simp add: to_double_mono)
qed (use assms in \<open>simp_all add: js_le_def\<close>)

lemma Math_round_mono: "js_le x y \<Longrightarrow> js_le (Math_round x) (Math_round y)"
  by (cases x; cases y) (simp_all add: js_le_def floor_mono not_less)

subsection \<open>Rounding error of the operators\<close>



section \<open>Facts about the formula\<close>

text \<open>The body of \<open>calculateBMR\<close> is the reference formula, rounded.\<close>

lemma calculateBMR_harris_benedict:
  "calculateBMR gender age height weight =
     Math_round (harris_benedict (coefficients_of gender) age height weight)"
  by (simp add: calculateBMR_def harris_benedict_def coefficients_of_def
      male_coefficients_def female_coefficients_def)

text \<open>
  The eight decimal literals are positive binary64 values below 512, each within half a
  unit in the last place of the decimal it is written as.
\<close>

lemma coefficient_literals:
  "\<exists>c0 c1 c2 c3.
     number_literal (base (coefficients_of gender)) = Fin c0 \<and>
     number_literal (per_kg (coefficients_of gender)) = Fin c1 \<and>
     number_literal (per_cm (coefficients_of gender)) = Fin c2 \<and>
     number_literal (per_year (coefficients_of gender)) = Fin c3 \<and>
     0 < c0 \<and> c0 \<le> 512 \<and> 0 < c1 \<and> c1 \<le> 16 \<and> 0 < c2 \<and> c2 \<le> 16 \<and> 0 < c3 \<and> c3 \<le> 16 \<and>
     \<bar>c0 - base (coefficients_of gender)\<bar> \<le> 1 / 2 ^ 45 \<and>
     \<bar>c1 - per_kg (coefficients_of gender)\<bar> \<le> 1 / 2 ^ 50 \<and>
     \<bar>c2 - per_cm (coefficients_of gender)\<bar> \<le> 1 / 2 ^ 51 \<and>
     \<bar>c3 - per_year (coefficients_of gender)\<bar> \<le> 1 / 2 ^ 51"
proof (cases "gender = ''male''")
  case True
  then have c: "coefficients_of gender = male_coefficients" by (simp add: coefficients_of_def)
  then have
    "number_literal (base (coefficients_of gender)) = Fin (3108961486513373 / 35184372088832)"
    "number_literal (per_kg (coefficients_of gender)) = Fin (7541840525985317 / 562949953421312)"
    "number_literal (per_cm (coefficients_of gender)) = Fin (5403193652937753 / 1125899906842624)"
    "number_literal (per_year (coefficients_of gender)) = Fin (798966721393197 / 140737488355328)"
    by (simp_all only: male_coefficients_def coefficients.select_convs
        lit_88362 lit_13397 lit_4799 lit_5677)
  then show ?thesis
    by (intro exI [of _ "3108961486513373 / 35184372088832"]
        exI [of _ "7541840525985317 / 562949953421312"]
        exI [of _ "5403193652937753 / 1125899906842624"]
        exI [of _ "798966721393197 / 140737488355328"])
      (simp add: c male_coefficients_def)
next
  case False
  then have c: "coefficients_of gender = female_coefficients" by (simp add: coefficients_of_def)
  then have
    "number_literal (base (coefficients_of gender)) = Fin (7874139328178291 / 17592186044416)"
    "number_literal (per_kg (coefficients_of gender)) = Fin (650699777410859 / 70368744177664)"
    "number_literal (per_cm (coefficients_of gender)) = Fin (3488037911398449 / 1125899906842624)"
    "number_literal (per_year (coefficients_of gender)) = Fin (2437573298314281 / 562949953421312)"
    by (simp_all only: female_coefficients_def coefficients.select_convs
        lit_447593 lit_9247 lit_3098 lit_4330)
  then show ?thesis
    by (intro exI [of _ "7874139328178291 / 17592186044416"]
        exI [of _ "650699777410859 / 70368744177664"]
        exI [of _ "3488037911398449 / 1125899906842624"]
        exI [of _ "2437573298314281 / 562949953421312"])
      (simp add: c female_coefficients_def)
qed

subsection \<open>Monotonicity of the formula\<close>

lemma harris_benedict_mono_weight:
  assumes le: "js_le w1 w2"
    and n1: "harris_benedict c a h w1 \<noteq> NaN" and n2: "harris_benedict c a h w2 \<noteq> NaN"
    and c1: "number_literal (per_kg c) = Fin c1" "0 < c1"
  shows "js_le (harris_benedict c a h w1) (harris_benedict c a h w2)"
proof -
  let ?k = "number_literal (base c)"
  let ?t2 = "js_mul (number_literal (per_cm c)) h"
  let ?t3 = "js_neg (js_mul (number_literal (per_year c)) a)"
  let ?s1 = "\<lambda>w. js_add ?k (js_mul (Fin c1) w)"
  let ?s2 = "\<lambda>w. js_add (?s1 w) ?t2"
  let ?s3 = "\<lambda>w. js_add (?s2 w) ?t3"
  have hb: "harris_benedict c a h w = ?s3 w" for w
    by (simp add: harris_benedict_def js_sub_def c1)
  have s3: "?s3 w1 \<noteq> NaN" "?s3 w2 \<noteq> NaN" using n1 n2 by (simp_all only: hb not_False_eq_True)
  then have s2: "?s2 w1 \<noteq> NaN" "?s2 w2 \<noteq> NaN" by (blast dest: js_add_not_NaN)+
  then have s1: "?s1 w1 \<noteq> NaN" "?s1 w2 \<noteq> NaN" by (blast dest: js_add_not_NaN)+
  have "js_le (js_mul (Fin c1) w1) (js_mul (Fin c1) w2)" using c1(2) le by (rule js_mul_mono)
  then have "js_le (?s1 w1) (?s1 w2)" using s1 by (rule js_add_mono_right)
  then have "js_le (?s2 w1) (?s2 w2)" using s2 by (rule js_add_mono_left)
  then have "js_le (?s3 w1) (?s3 w2)" using s3 by (rule js_add_mono_left)
  then show ?thesis by (simp only: hb)
qed

lemma harris_benedict_mono_height:
  assumes le: "js_le h1 h2"
    and n1: "harris_benedict c a h1 w \<noteq> NaN" and n2: "harris_benedict c a h2 w \<noteq> NaN"
    and c2: "number_literal (per_cm c) = Fin c2" "0 < c2"
  shows "js_le (harris_benedict c a h1 w) (harris_benedict c a h2 w)"
proof -
  let ?s1 = "js_add (number_literal (base c)) (js_mul (number_literal (per_kg c)) w)"
  let ?t3 = "js_neg (js_mul (number_literal (per_year c)) a)"
  let ?s2 = "\<lambda>h. js_add ?s1 (js_mul (Fin c2) h)"
  let ?s3 = "\<lambda>h. js_add (?s2 h) ?t3"
  have hb: "harris_benedict c a h w = ?s3 h" for h
    by (simp add: harris_benedict_def js_sub_def c2)
  have s3: "?s3 h1 \<noteq> NaN" "?s3 h2 \<noteq> NaN" using n1 n2 by (simp_all only: hb not_False_eq_True)
  then have s2: "?s2 h1 \<noteq> NaN" "?s2 h2 \<noteq> NaN" by (blast dest: js_add_not_NaN)+
  have "js_le (js_mul (Fin c2) h1) (js_mul (Fin c2) h2)" using c2(2) le by (rule js_mul_mono)
  then have "js_le (?s2 h1) (?s2 h2)" using s2 by (rule js_add_mono_right)
  then have "js_le (?s3 h1) (?s3 h2)" using s3 by (rule js_add_mono_left)
  then show ?thesis by (simp only: hb)
qed

lemma harris_benedict_antimono_age:
  assumes le: "js_le a1 a2"
    and n1: "harris_benedict c a1 h w \<noteq> NaN" and n2: "harris_benedict c a2 h w \<noteq> NaN"
    and c3: "number_literal (per_year c) = Fin c3" "0 < c3"
  shows "js_le (harris_benedict c a2 h w) (harris_benedict c a1 h w)"
proof -
  let ?s2 = "js_add (js_add (number_literal (base c)) (js_mul (number_literal (per_kg c)) w))
               (js_mul (number_literal (per_cm c)) h)"
  let ?s3 = "\<lambda>a. js_add ?s2 (js_neg (js_mul (Fin c3) a))"
  have hb: "harris_benedict c a h w = ?s3 a" for a
    by (simp add: harris_benedict_def js_sub_def c3)
  have s3: "?s3 a2 \<noteq> NaN" "?s3 a1 \<noteq> NaN" using n1 n2 by (simp_all only: hb not_False_eq_True)
  have "js_le (js_mul (Fin c3) a1) (js_mul (Fin c3) a2)" using c3(2) le by (rule js_mul_mono)
  then have "js_le (js_neg (js_mul (Fin c3) a2)) (js_neg (js_mul (Fin c3) a1))"
    by (rule js_neg_antimono)
  then have "js_le (?s3 a2) (?s3 a1)" using s3 by (rule js_add_mono_right)
  then show ?thesis by (simp only: hb)
qed

subsection \<open>No overflow on moderate inputs\<close>

lemma js_mul_bounded:
  assumes "\<bar>c\<bar> \<le> 16" and "\<bar>x\<bar> \<le> 2 ^ 1000"
  shows "\<exists>r. js_mul (Fin c) (Fin x) = Fin r \<and> \<bar>r\<bar> \<le> 2 ^ 1004"
proof -
  have "\<bar>c * x\<bar> = \<bar>c\<bar> * \<bar>x\<bar>" by (rule abs_mult)
  also have "\<dots> \<le> 16 * 2 ^ 1000" using assms by (intro mult_mono) simp_all
  also have "\<dots> = (2::rat) ^ 1004" by simp
  finally have "\<bar>c * x\<bar> \<le> 2 ^ 1004" .
  then have "\<exists>r. to_double (c * x) = Fin r \<and> \<bar>r\<bar> \<le> 2 ^ 1004"
    by (rule to_double_bounded) simp
  then show ?thesis by simp
qed

lemma js_add_bounded:
  assumes "\<bar>x\<bar> \<le> 2 ^ n" and "\<bar>y\<bar> \<le> 2 ^ n" and "n < 1023"
  shows "\<exists>r. js_add (Fin x) (Fin y) = Fin r \<and> \<bar>r\<bar> \<le> 2 ^ Suc n"
proof -
  have "\<bar>x + y\<bar> \<le> \<bar>x\<bar> + \<bar>y\<bar>" by (rule abs_triangle_ineq)
  also have "\<dots> \<le> 2 ^ n + 2 ^ n" using assms(1,2) by (rule add_mono)
  also have "\<dots> = (2::rat) ^ Suc n" by simp
  finally have "\<bar>x + y\<bar> \<le> 2 ^ Suc n" .
  then have "\<exists>r. to_double (x + y) = Fin r \<and> \<bar>r\<bar> \<le> 2 ^ Suc n"
    using assms(3) by (intro to_double_bounded) simp_all
  then show ?thesis by simp
qed

lemma harris_benedict_finite:
  assumes a: "\<bar>a\<bar> \<le> 2 ^ 1000" and h: "\<bar>h\<bar> \<le> 2 ^ 1000" and w: "\<bar>w\<bar> \<le> 2 ^ 1000"
  shows "\<exists>r. harris_benedict (coefficients_of gender) (Fin a) (Fin h) (Fin w) = Fin r"
proof -
  from coefficient_literals [of gender] obtain c0 c1 c2 c3 where
    lits: "number_literal (base (coefficients_of gender)) = Fin c0"
      "number_literal (per_kg (coefficients_of gender)) = Fin c1"
      "number_literal (per_cm (coefficients_of gender)) = Fin c2"
      "number_literal (per_year (coefficients_of gender)) = Fin c3"
    and bounds: "0 < c0" "c0 \<le> 512" "0 < c1" "c1 \<le> 16" "0 < c2" "c2 \<le> 16" "0 < c3" "c3 \<le> 16"
    by blast
  from bounds w obtain t1 where t1: "js_mul (Fin c1) (Fin w) = Fin t1" "\<bar>t1\<bar> \<le> 2 ^ 1004"
    using js_mul_bounded [of c1 w] by auto
  from bounds h obtain t2 where t2: "js_mul (Fin c2) (Fin h) = Fin t2" "\<bar>t2\<bar> \<le> 2 ^ 1004"
    using js_mul_bounded [of c2 h] by auto
  from bounds a obtain t3 where t3: "js_mul (Fin c3) (Fin a) = Fin t3" "\<bar>t3\<bar> \<le> 2 ^ 1004"
    using js_mul_bounded [of c3 a] by auto
  have "(512::rat) \<le> 2 ^ 1004" by simp
  with bounds have c0: "\<bar>c0\<bar> \<le> 2 ^ 1004" by simp
  from c0 t1(2) obtain s1 where s1: "js_add (Fin c0) (Fin t1) = Fin s1" "\<bar>s1\<bar> \<le> 2 ^ 1005"
    using js_add_bounded [of c0 1004 t1] by auto
  have "(2::rat) ^ 1004 \<le> 2 ^ 1005" by simp
  with t2(2) have "\<bar>t2\<bar> \<le> 2 ^ 1005" by linarith
  with s1(2) obtain s2 where s2: "js_add (Fin s1) (Fin t2) = Fin s2" "\<bar>s2\<bar> \<le> 2 ^ 1006"
    using js_add_bounded [of s1 1005 t2] by auto
  have "(2::rat) ^ 1004 \<le> 2 ^ 1006" by simp
  with t3(2) have "\<bar>- t3\<bar> \<le> 2 ^ 1006" by simp
  with s2(2) obtain s3 where s3: "js_add (Fin s2) (Fin (- t3)) = Fin s3"
    using js_add_bounded [of s2 1006 "- t3"] by auto
  have "harris_benedict (coefficients_of gender) (Fin a) (Fin h) (Fin w) = Fin s3"
    by (simp only: harris_benedict_def js_sub_def lits t1 t2 t3 js_neg.simps s1 s2 s3)
  then show ?thesis ..
qed

subsection \<open>Distance to the exact formula\<close>



subsection \<open>The formula on concrete inputs\<close>

text \<open>
  The value of the formula before \<open>Math.round\<close> and the result, each operation
  rounded to binary64; \<open>t1\<close>, \<open>t2\<close>, \<open>t3\<close> are the three products and \<open>s1\<close>, \<open>s2\<close>, \<open>s3\<close>
  the running sums.
\<close>

lemma hb_male_30_175_70:
  "harris_benedict (coefficients_of ''male'') (Fin 30) (Fin 175) (Fin 70) =
     Fin (7457622333344187 / 4398046511104)"
proof -
  have t1: "js_mul (Fin (7541840525985317 / 562949953421312)) (Fin 70) = Fin (1031111009412055 / 1099511627776)"
    by (simp only: js_mul.simps) (rule to_double_near [where e = "- 43" and m = 8248888075296440]; simp)
  have s1: "js_add (Fin (3108961486513373 / 35184372088832)) (Fin (1031111009412055 / 1099511627776)) = Fin (564133027932799 / 549755813888)"
    by (simp only: js_add.simps) (rule to_double_near [where e = "- 42" and m = 4513064223462392]; simp)
  have t2: "js_mul (Fin (5403193652937753 / 1125899906842624)) (Fin 175) = Fin (3693589411187917 / 4398046511104)"
    by (simp only: js_mul.simps) (rule to_double_near [where e = "- 43" and m = 7387178822375834]; simp)
  have s2: "js_add (Fin (564133027932799 / 549755813888)) (Fin (3693589411187917 / 4398046511104)) = Fin (8206653634650309 / 4398046511104)"
    by (simp only: js_add.simps) (rule to_double_near [where e = "- 42" and m = 8206653634650309]; simp)
  have t3: "js_mul (Fin (798966721393197 / 140737488355328)) (Fin 30) = Fin (2996125205224489 / 17592186044416)"
    by (simp only: js_mul.simps) (rule to_double_tie [where e = "- 45" and f = 5992250410448977 and m = 5992250410448978]; simp)
  have s3: "js_add (Fin (8206653634650309 / 4398046511104)) (Fin (- (2996125205224489 / 17592186044416))) = Fin (7457622333344187 / 4398046511104)"
    by (simp only: js_add.simps) (rule to_double_near [where e = "- 42" and m = 7457622333344187]; simp)
  have n: "js_neg (Fin (2996125205224489 / 17592186044416)) = Fin (- (2996125205224489 / 17592186044416))"
    by simp
  show ?thesis
    by (simp only: harris_benedict_def coefficients_of_def refl if_True male_coefficients_def
        coefficients.select_convs js_sub_def lit_88362 lit_13397 lit_4799 lit_5677 t1 s1 t2 s2 t3 n s3)
qed

lemma calc_male_30_175_70: "calculateBMR ''male'' (Fin 30) (Fin 175) (Fin 70) = Fin 1696"
  unfolding calculateBMR_harris_benedict hb_male_30_175_70
  by (rule Math_round_eqI [where n = 1696]; simp)

lemma hb_female_30_165_60:
  "harris_benedict (coefficients_of ''female'') (Fin 30) (Fin 165) (Fin 60) =
     Fin (1521375547655979 / 1099511627776)"
proof -
  have t1: "js_mul (Fin (650699777410859 / 70368744177664)) (Fin 60) = Fin (2440124165290721 / 4398046511104)"
    by (simp only: js_mul.simps) (rule to_double_tie [where e = "- 43" and f = 4880248330581442 and m = 4880248330581442]; simp)
  have s1: "js_add (Fin (7874139328178291 / 17592186044416)) (Fin (2440124165290721 / 4398046511104)) = Fin (2204329498667647 / 2199023255552)"
    by (simp only: js_add.simps) (rule to_double_tie [where e = "- 43" and f = 8817317994670587 and m = 8817317994670588]; simp)
  have t2: "js_mul (Fin (3488037911398449 / 1125899906842624)) (Fin 165) = Fin (4496298870162063 / 8796093022208)"
    by (simp only: js_mul.simps) (rule to_double_near [where e = "- 44" and m = 8992597740324126]; simp)
  have s2: "js_add (Fin (2204329498667647 / 2199023255552)) (Fin (4496298870162063 / 8796093022208)) = Fin (3328404216208163 / 2199023255552)"
    by (simp only: js_add.simps) (rule to_double_tie [where e = "- 42" and f = 6656808432416325 and m = 6656808432416326]; simp)
  have t3: "js_mul (Fin (2437573298314281 / 562949953421312)) (Fin 30) = Fin (4570449934339277 / 35184372088832)"
    by (simp only: js_mul.simps) (rule to_double_near [where e = "- 45" and m = 4570449934339277]; simp)
  have s3: "js_add (Fin (3328404216208163 / 2199023255552)) (Fin (- (4570449934339277 / 35184372088832))) = Fin (1521375547655979 / 1099511627776)"
    by (simp only: js_add.simps) (rule to_double_near [where e = "- 42" and m = 6085502190623916]; simp)
  have n: "js_neg (Fin (4570449934339277 / 35184372088832)) = Fin (- (4570449934339277 / 35184372088832))"
    by simp
  show ?thesis
    by (simp only: harris_benedict_def coefficients_of_def female_not_male if_False female_coefficients_def
        coefficients.select_convs js_sub_def lit_447593 lit_9247 lit_3098 lit_4330 t1 s1 t2 s2 t3 n s3)
qed

lemma calc_female_30_165_60: "calculateBMR ''female'' (Fin 30) (Fin 165) (Fin 60) = Fin 1384"
  unfolding calculateBMR_harris_benedict hb_female_30_165_60
  by (rule Math_round_eqI [where n = 1384]; simp)

lemma hb_male_30_175_60:
  "harris_benedict (coefficients_of ''male'') (Fin 30) (Fin 175) (Fin 60) =
     Fin (107319000660181 / 68719476736)"
proof -
  have t1: "js_mul (Fin (7541840525985317 / 562949953421312)) (Fin 60) = Fin (7070475493111235 / 8796093022208)"
    by (simp only: js_mul.simps) (rule to_double_near [where e = "- 43" and m = 7070475493111235]; simp)
  have s1: "js_add (Fin (3108961486513373 / 35184372088832)) (Fin (7070475493111235 / 8796093022208)) = Fin (3923857932369789 / 4398046511104)"
    by (simp only: js_add.simps) (rule to_double_near [where e = "- 43" and m = 7847715864739578]; simp)
  have t2: "js_mul (Fin (5403193652937753 / 1125899906842624)) (Fin 175) = Fin (3693589411187917 / 4398046511104)"
    by (simp only: js_mul.simps) (rule to_double_near [where e = "- 43" and m = 7387178822375834]; simp)
  have s2: "js_add (Fin (3923857932369789 / 4398046511104)) (Fin (3693589411187917 / 4398046511104)) = Fin (3808723671778853 / 2199023255552)"
    by (simp only: js_add.simps) (rule to_double_near [where e = "- 42" and m = 7617447343557706]; simp)
  have t3: "js_mul (Fin (798966721393197 / 140737488355328)) (Fin 30) = Fin (2996125205224489 / 17592186044416)"
    by (simp only: js_mul.simps) (rule to_double_tie [where e = "- 45" and f = 5992250410448977 and m = 5992250410448978]; simp)
  have s3: "js_add (Fin (3808723671778853 / 2199023255552)) (Fin (- (2996125205224489 / 17592186044416))) = Fin (107319000660181 / 68719476736)"
    by (simp only: js_add.simps) (rule to_double_near [where e = "- 42" and m = 6868416042251584]; simp)
  have n: "js_neg (Fin (2996125205224489 / 17592186044416)) = Fin (- (2996125205224489 / 17592186044416))"
    by simp
  show ?thesis
    by (simp only: harris_benedict_def coefficients_of_def refl if_True male_coefficients_def
        coefficients.select_convs js_sub_def lit_88362 lit_13397 lit_4799 lit_5677 t1 s1 t2 s2 t3 n s3)
qed

lemma calc_male_30_175_60: "calculateBMR ''male'' (Fin 30) (Fin 175) (Fin 60) = Fin 1562"
  unfolding calculateBMR_harris_benedict hb_male_30_175_60
  by (rule Math_round_eqI [where n = 1562]; simp)

lemma hb_male_30_165_70:
  "harris_benedict (coefficients_of ''male'') (Fin 30) (Fin 165) (Fin 70) =
     Fin (3623280040638153 / 2199023255552)"
proof -
  have t1: "js_mul (Fin (7541840525985317 / 562949953421312)) (Fin 70) = Fin (1031111009412055 / 1099511627776)"
    by (simp only: js_mul.simps) (rule to_double_near [where e = "- 43" and m = 8248888075296440]; simp)
  have s1: "js_add (Fin (3108961486513373 / 35184372088832)) (Fin (1031111009412055 / 1099511627776)) = Fin (564133027932799 / 549755813888)"
    by (simp only: js_add.simps) (rule to_double_near [where e = "- 42" and m = 4513064223462392]; simp)
  have t2: "js_mul (Fin (5403193652937753 / 1125899906842624)) (Fin 165) = Fin (870631789780009 / 1099511627776)"
    by (simp only: js_mul.simps) (rule to_double_near [where e = "- 43" and m = 6965054318240072]; simp)
  have s2: "js_add (Fin (564133027932799 / 549755813888)) (Fin (870631789780009 / 1099511627776)) = Fin (1998897845645607 / 1099511627776)"
    by (simp only: js_add.simps) (rule to_double_near [where e = "- 42" and m = 7995591382582428]; simp)
  have t3: "js_mul (Fin (798966721393197 / 140737488355328)) (Fin 30) = Fin (2996125205224489 / 17592186044416)"
    by (simp only: js_mul.simps) (rule to_double_tie [where e = "- 45" and f = 5992250410448977 and m = 5992250410448978]; simp)
  have s3: "js_add (Fin (1998897845645607 / 1099511627776)) (Fin (- (2996125205224489 / 17592186044416))) = Fin (3623280040638153 / 2199023255552)"
    by (simp only: js_add.simps) (rule to_double_near [where e = "- 42" and m = 7246560081276306]; simp)
  have n: "js_neg (Fin (2996125205224489 / 17592186044416)) = Fin (- (2996125205224489 / 17592186044416))"
    by simp
  show ?thesis
    by (simp only: harris_benedict_def coefficients_of_def refl if_True male_coefficients_def
        coefficients.select_convs js_sub_def lit_88362 lit_13397 lit_4799 lit_5677 t1 s1 t2 s2 t3 n s3)
qed

lemma calc_male_30_165_70: "calculateBMR ''male'' (Fin 30) (Fin 165) (Fin 70) = Fin 1648"
  unfolding calculateBMR_harris_benedict hb_male_30_165_70
  by (rule Math_round_eqI [where n = 1648]; simp)

lemma hb_male_40_175_70:
  "harris_benedict (coefficients_of ''male'') (Fin 40) (Fin 175) (Fin 70) =
     Fin (7207945232908813 / 4398046511104)"
proof -
  have t1: "js_mul (Fin (7541840525985317 / 562949953421312)) (Fin 70) = Fin (1031111009412055 / 1099511627776)"
    by (simp only: js_mul.simps) (rule to_double_near [where e = "- 43" and m = 8248888075296440]; simp)
  have s1: "js_add (Fin (3108961486513373 / 35184372088832)) (Fin (1031111009412055 / 1099511627776)) = Fin (564133027932799 / 549755813888)"
    by (simp only: js_add.simps) (rule to_double_near [where e = "- 42" and m = 4513064223462392]; simp)
  have t2: "js_mul (Fin (5403193652937753 / 1125899906842624)) (Fin 175) = Fin (3693589411187917 / 4398046511104)"
    by (simp only: js_mul.simps) (rule to_double_near [where e = "- 43" and m = 7387178822375834]; simp)
  have s2: "js_add (Fin (564133027932799 / 549755813888)) (Fin (3693589411187917 / 4398046511104)) = Fin (8206653634650309 / 4398046511104)"
    by (simp only: js_add.simps) (rule to_double_near [where e = "- 42" and m = 8206653634650309]; simp)
  have t3: "js_mul (Fin (798966721393197 / 140737488355328)) (Fin 40) = Fin (3994833606965985 / 17592186044416)"
    by (simp only: js_mul.simps) (rule to_double_near [where e = "- 45" and m = 7989667213931970]; simp)
  have s3: "js_add (Fin (8206653634650309 / 4398046511104)) (Fin (- (3994833606965985 / 17592186044416))) = Fin (7207945232908813 / 4398046511104)"
    by (simp only: js_add.simps) (rule to_double_near [where e = "- 42" and m = 7207945232908813]; simp)
  have n: "js_neg (Fin (3994833606965985 / 17592186044416)) = Fin (- (3994833606965985 / 17592186044416))"
    by simp
  show ?thesis
    by (simp only: harris_benedict_def coefficients_of_def refl if_True male_coefficients_def
        coefficients.select_convs js_sub_def lit_88362 lit_13397 lit_4799 lit_5677 t1 s1 t2 s2 t3 n s3)
qed

lemma calc_male_40_175_70: "calculateBMR ''male'' (Fin 40) (Fin 175) (Fin 70) = Fin 1639"
  unfolding calculateBMR_harris_benedict hb_male_40_175_70
  by (rule Math_round_eqI [where n = 1639]; simp)

lemma hb_male_1_53_44:
  "harris_benedict (coefficients_of ''male'') (Fin 1) (Fin 53) (Fin 44) =
     Fin (8149580185075711 / 8796093022208)"
proof -
  have t1: "js_mul (Fin (7541840525985317 / 562949953421312)) (Fin 44) = Fin (5185015361614905 / 8796093022208)"
    by (simp only: js_mul.simps) (rule to_double_near [where e = "- 43" and m = 5185015361614905]; simp)
  have s1: "js_add (Fin (3108961486513373 / 35184372088832)) (Fin (5185015361614905 / 8796093022208)) = Fin (372640983327703 / 549755813888)"
    by (simp only: js_add.simps) (rule to_double_near [where e = "- 43" and m = 5962255733243248]; simp)
  have t2: "js_mul (Fin (5403193652937753 / 1125899906842624)) (Fin 53) = Fin (8949039487678153 / 35184372088832)"
    by (simp only: js_mul.simps) (rule to_double_near [where e = "- 45" and m = 8949039487678153]; simp)
  have s2: "js_add (Fin (372640983327703 / 549755813888)) (Fin (8949039487678153 / 35184372088832)) = Fin (4099757802581393 / 4398046511104)"
    by (simp only: js_add.simps) (rule to_double_near [where e = "- 43" and m = 8199515605162786]; simp)
  have t3: "js_mul (Fin (798966721393197 / 140737488355328)) (Fin 1) = Fin (798966721393197 / 140737488355328)"
    by (simp only: js_mul.simps) (rule to_double_near [where e = "- 50" and m = 6391733771145576]; simp)
  have s3: "js_add (Fin (4099757802581393 / 4398046511104)) (Fin (- (798966721393197 / 140737488355328))) = Fin (8149580185075711 / 8796093022208)"
    by (simp only: js_add.simps) (rule to_double_near [where e = "- 43" and m = 8149580185075711]; simp)
  have n: "js_neg (Fin (798966721393197 / 140737488355328)) = Fin (- (798966721393197 / 140737488355328))"
    by simp
  show ?thesis
    by (simp only: harris_benedict_def coefficients_of_def refl if_True male_coefficients_def
        coefficients.select_convs js_sub_def lit_88362 lit_13397 lit_4799 lit_5677 t1 s1 t2 s2 t3 n s3)
qed

lemma calc_male_1_53_44: "calculateBMR ''male'' (Fin 1) (Fin 53) (Fin 44) = Fin 926"
  unfolding calculateBMR_harris_benedict hb_male_1_53_44
  by (rule Math_round_eqI [where n = 926]; simp)

text \<open>
  An exact tie. With age 1, height 53 and weight 44 the exact formula is 926.5; in
  binary64 the last sum comes out one unit in the last place below it, and the result
  is 926.
\<close>

lemma exact_male_1_53_44: "exact_formula (coefficients_of ''male'') 1 53 44 = 1853 / 2"
  by (simp add: exact_formula_def coefficients_of_def male_coefficients_def)


section \<open>The claims\<close>

subsection \<open>C1\<close>



subsection \<open>C2\<close>

text \<open>
  C2. For every integer age in [1, 120], every height in [50, 250] and every weight in
  [20, 300], the bounds included, \<open>validateInputs\<close> returns \<open>isValid = true\<close> with the
  empty message.
\<close>

theorem validateInputs_accepts_in_range:
  assumes "1 \<le> n" and "n \<le> 120" and "50 \<le> h" and "h \<le> 250" and "20 \<le> w" and "w \<le> 300"
  shows "validateInputs (Fin (of_int n)) (Fin h) (Fin w) = \<lparr>isValid = True, message = []\<rparr>"
proof -
  have "\<not> js_not (Fin (of_int n))" "\<not> js_not (Fin h)" "\<not> js_not (Fin w)"
    using assms by (auto simp: js_not_def)
  moreover have "(1::rat) \<le> of_int n" "(of_int n :: rat) \<le> 120"
    using assms(1,2) by (simp_all add: of_int_le_numeral_iff [symmetric] del: of_int_le_numeral_iff)
  ultimately show ?thesis using assms(3-6)
    by (simp add: validateInputs_def js_gt_def not_less)
qed

theorem validateInputs_accepts_in_range_witness:
  "validateInputs (Fin 1) (Fin 250) (Fin 20) = \<lparr>isValid = True, message = []\<rparr> \<and>
   validateInputs (Fin 120) (Fin 50) (Fin 300) = \<lparr>isValid = True, message = []\<rparr>"
  using validateInputs_accepts_in_range [of 1 250 20] validateInputs_accepts_in_range [of 120 50 300]
  by simp

subsection \<open>C3\<close>

text \<open>
  C3, as the specification words it, asks for the message "please enter a valid age
  (1-120)" in English. The message of the script is the Chinese text of
  \<open>age_message\<close>.
\<close>

theorem age_message_not_as_quoted:
  "message (validateInputs NaN (Fin 170) (Fin 65)) \<noteq> quoted_age_message"
  by (simp add: validateInputs_def js_not_def age_message_def quoted_age_message_def)

text \<open>
  C3, amended. For every age that is NaN (a missing or unparseable field), equal to 0,
  less than 1 or greater than 120, whatever the other two fields, \<open>validateInputs\<close>
  returns \<open>isValid = false\<close> with the age message of the script; NaN and zero are
  falsy, so the test \<open>!age\<close> rejects them, and no comparison holds of NaN.
\<close>

theorem validateInputs_rejects_age:
  assumes "age = NaN \<or> age = Fin 0 \<or> js_lt age (Fin 1) \<or> js_gt age (Fin 120)"
  shows "validateInputs age height weight = \<lparr>isValid = False, message = age_message\<rparr> \<and>
         js_not NaN \<and> js_not (Fin 0) \<and> \<not> js_lt NaN (Fin 1) \<and> \<not> js_gt NaN (Fin 120)"
  using assms by (auto simp: validateInputs_def js_not_def js_gt_def)

theorem validateInputs_rejects_age_witness:
  "validateInputs NaN (Fin 170) (Fin 65) = \<lparr>isValid = False, message = age_message\<rparr> \<and>
   validateInputs (Fin 0) (Fin 170) (Fin 65) = \<lparr>isValid = False, message = age_message\<rparr> \<and>
   validateInputs (Fin (1 / 2)) NaN NaN = \<lparr>isValid = False, message = age_message\<rparr> \<and>
   validateInputs (Fin 121) (Fin 170) (Fin 65) = \<lparr>isValid = False, message = age_message\<rparr>"
  using validateInputs_rejects_age [of NaN "Fin 170" "Fin 65"]
    validateInputs_rejects_age [of "Fin 0" "Fin 170" "Fin 65"]
    validateInputs_rejects_age [of "Fin (1 / 2)" NaN NaN]
    validateInputs_rejects_age [of "Fin 121" "Fin 170" "Fin 65"]
  by (simp add: js_gt_def)

subsection \<open>C4\<close>

lemma rule_fails_iff:
  "rule_fails f x \<longleftrightarrow>
     js_not x \<or> js_lt x (Fin (lower_bound f)) \<or> js_gt x (Fin (upper_bound f))"
  by (cases x) (simp_all add: js_not_def js_gt_def)

text \<open>
  C4. The rules are checked in the order age, height, weight and the first failing rule
  decides: whenever one or several fields fail their rule, \<open>validateInputs\<close> returns
  \<open>isValid = false\<close> with the message of the first of them in that order. The three
  messages differ from each other.
\<close>

theorem validateInputs_first_failure_wins:
  assumes "failing_fields age height weight = f # fs"
  shows "validateInputs age height weight = \<lparr>isValid = False, message = field_message f\<rparr> \<and>
         distinct (map field_message [Age, Height, Weight])"
proof
  have rules:
    "rule_fails Age age \<longleftrightarrow>
       js_not age \<or> js_lt age (number_literal 1) \<or> js_gt age (number_literal 120)"
    "rule_fails Height height \<longleftrightarrow>
       js_not height \<or> js_lt height (number_literal 50) \<or> js_gt height (number_literal 250)"
    "rule_fails Weight weight \<longleftrightarrow>
       js_not weight \<or> js_lt weight (number_literal 20) \<or> js_gt weight (number_literal 300)"
    by (simp_all add: rule_fails_iff)
  show "validateInputs age height weight = \<lparr>isValid = False, message = field_message f\<rparr>"
  proof (cases "rule_fails Age age")
    case True
    with assms have "f = Age" by (simp add: failing_fields_def)
    with True show ?thesis unfolding validateInputs_def rules [symmetric] by simp
  next
    case age: False
    show ?thesis
    proof (cases "rule_fails Height height")
      case True
      with age assms have "f = Height" by (simp add: failing_fields_def)
      with age True show ?thesis unfolding validateInputs_def rules [symmetric] by simp
    next
      case height: False
      with age assms have "f = Weight" and "rule_fails Weight weight"
        by (simp_all add: failing_fields_def split: if_splits)
      with age height show ?thesis unfolding validateInputs_def rules [symmetric] by simp
    qed
  qed
next
  show "distinct (map field_message [Age, Height, Weight])"
    by (simp add: age_message_def height_message_def weight_message_def)
qed

theorem validateInputs_first_failure_wins_witness:
  "failing_fields (Fin 0) (Fin 10) (Fin 5) = [Age, Height, Weight] \<and>
   validateInputs (Fin 0) (Fin 10) (Fin 5) = \<lparr>isValid = False, message = age_message\<rparr> \<and>
   failing_fields (Fin 30) (Fin 300) NaN = [Height, Weight] \<and>
   validateInputs (Fin 30) (Fin 300) NaN = \<lparr>isValid = False, message = height_message\<rparr>"
proof -
  have a: "failing_fields (Fin 0) (Fin 10) (Fin 5) = [Age, Height, Weight]"
    and b: "failing_fields (Fin 30) (Fin 300) NaN = [Height, Weight]"
    by (simp_all add: failing_fields_def)
  from validateInputs_first_failure_wins [OF a] validateInputs_first_failure_wins [OF b] a b
  show ?thesis by simp
qed

subsection \<open>C5\<close>

text \<open>
  C5. The two test vectors: \<open>calculateBMR('male', 30, 175, 70)\<close> is 1696 and
  \<open>calculateBMR('female', 30, 165, 60)\<close> is 1384.
\<close>

theorem calculateBMR_test_vectors:
  "calculateBMR ''male'' (Fin 30) (Fin 175) (Fin 70) = Fin 1696 \<and>
   calculateBMR ''female'' (Fin 30) (Fin 165) (Fin 60) = Fin 1384"
  using calc_male_30_175_70 calc_female_30_165_60 by (rule conjI)

subsection \<open>C6\<close>



subsection \<open>C7\<close>


subsection \<open>C8\<close>






subsection \<open>C9\<close>

lemma calc_male_NaN_175_70: "calculateBMR ''male'' NaN (Fin 175) (Fin 70) = NaN"
  by (simp add: calculateBMR_def js_sub_def)

text \<open>
  C9, as stated, has \<open>calculateBMR\<close> return an integer for every numeric age, height
  and weight. NaN is a Number, the one \<open>parseInt\<close> gives for an empty field, and on it
  the result is NaN.
\<close>

theorem calculateBMR_NaN_not_integer:
  "\<not> is_integer (calculateBMR ''male'' NaN (Fin 175) (Fin 70))"
  by (simp add: calc_male_NaN_175_70)

lemma is_integer_Math_round:
  "is_integer (Math_round x) \<or> Math_round x = NaN \<or> Math_round x = PInf \<or> Math_round x = NInf"
  by (cases x) simp_all

lemma harris_benedict_NaN:
  assumes "age = NaN \<or> height = NaN \<or> weight = NaN"
  shows "harris_benedict c age height weight = NaN"
proof -
  have "js_add x y = NaN" if "x = NaN \<or> y = NaN" for x y
    using that by (cases x; cases y) auto
  moreover have "js_mul x y = NaN" if "y = NaN" for x y
    using that by simp
  ultimately show ?thesis using assms
    by (auto simp: harris_benedict_def js_sub_def)
qed

text \<open>
  C9, amended. \<open>calculateBMR\<close> is total and performs no validation of its own. For
  every finite age, height and weight of magnitude at most \<open>2 ^ 1000\<close>, values outside
  the ranges of the validator, zero and negative ones included, it returns an integer.
  For any Numbers whatever it returns a value without signalling an error: NaN when one
  of them is NaN, and otherwise an integer, NaN or an infinity.
\<close>

theorem calculateBMR_total:
  "(is_integer (calculateBMR gender age height weight) \<or>
      calculateBMR gender age height weight = NaN \<or>
      calculateBMR gender age height weight = PInf \<or>
      calculateBMR gender age height weight = NInf) \<and>
   (age = NaN \<or> height = NaN \<or> weight = NaN \<longrightarrow>
      calculateBMR gender age height weight = NaN) \<and>
   (\<bar>a\<bar> \<le> 2 ^ 1000 \<and> \<bar>h\<bar> \<le> 2 ^ 1000 \<and> \<bar>w\<bar> \<le> 2 ^ 1000 \<longrightarrow>
      is_integer (calculateBMR gender (Fin a) (Fin h) (Fin w)))"
proof (intro conjI impI)
  show "is_integer (calculateBMR gender age height weight) \<or>
      calculateBMR gender age height weight = NaN \<or>
      calculateBMR gender age height weight = PInf \<or>
      calculateBMR gender age height weight = NInf"
    unfolding calculateBMR_harris_benedict by (rule is_integer_Math_round)
next
  assume "age = NaN \<or> height = NaN \<or> weight = NaN"
  then show "calculateBMR gender age height weight = NaN"
    by (simp only: calculateBMR_harris_benedict harris_benedict_NaN Math_round.simps)
next
  assume "\<bar>a\<bar> \<le> 2 ^ 1000 \<and> \<bar>h\<bar> \<le> 2 ^ 1000 \<and> \<bar>w\<bar> \<le> 2 ^ 1000"
  then obtain r where "harris_benedict (coefficients_of gender) (Fin a) (Fin h) (Fin w) = Fin r"
    using harris_benedict_finite [of a h w gender] by blast
  then show "is_integer (calculateBMR gender (Fin a) (Fin h) (Fin w))"
    by (simp add: calculateBMR_harris_benedict)
qed

theorem calculateBMR_total_witness:
  "calculateBMR ''male'' NaN (Fin 175) (Fin 70) = NaN \<and>
   is_integer (calculateBMR ''male'' (Fin 0) (Fin (- 3)) (Fin (2 ^ 1000))) \<and>
   is_integer (calculateBMR ''female'' (Fin 30) (Fin 165) (Fin 60))"
  using calculateBMR_total [of "''male''" NaN "Fin 175" "Fin 70" 0 "- 3" "2 ^ 1000"]
    calculateBMR_total [of "''female''" NaN NaN NaN 30 165 60]
  by simp

subsection \<open>C10\<close>

lemma calc_male_overflow_low:
  "calculateBMR ''male'' (Fin 0) (Fin (- (2 ^ 1023))) (Fin 1) = NInf"
proof -
  have t1: "js_mul (Fin (7541840525985317 / 562949953421312)) (Fin 1) =
      Fin (7541840525985317 / 562949953421312)"
    by (simp only: js_mul.simps)
      (rule to_double_near [where e = "- 49" and m = 7541840525985317]; simp)
  obtain s1 where s1: "js_add (Fin (3108961486513373 / 35184372088832))
      (Fin (7541840525985317 / 562949953421312)) = Fin s1"
    using js_add_bounded [of "3108961486513373 / 35184372088832" 10
        "7541840525985317 / 562949953421312"]
    by auto
  have "(5403193652937753 / 1125899906842624 :: rat) * - (2 ^ 1023) \<le> - (2 ^ 1024)"
    by simp
  then have t2: "js_mul (Fin (5403193652937753 / 1125899906842624)) (Fin (- (2 ^ 1023))) = NInf"
    by (simp only: js_mul.simps to_double_underflow)
  have t3: "js_neg (js_mul (Fin (798966721393197 / 140737488355328)) (Fin 0)) = Fin 0"
    by simp
  have s2: "js_add (Fin s1) NInf = NInf" and s3: "js_add NInf (Fin 0) = NInf"
    by simp_all
  have "harris_benedict (coefficients_of ''male'') (Fin 0) (Fin (- (2 ^ 1023))) (Fin 1) = NInf"
    by (simp only: harris_benedict_def coefficients_of_def refl if_True male_coefficients_def
        coefficients.select_convs js_sub_def lit_88362 lit_13397 lit_4799 lit_5677
        t1 s1 t2 t3 s2 s3)
  then show ?thesis by (simp only: calculateBMR_harris_benedict Math_round.simps)
qed

lemma calc_male_overflow_high:
  "calculateBMR ''male'' (Fin 0) (Fin (- (2 ^ 1023))) (Fin (2 ^ 1023)) = NaN"
proof -
  have "(2::rat) ^ 1024 \<le> 7541840525985317 / 562949953421312 * 2 ^ 1023"
    by simp
  then have t1: "js_mul (Fin (7541840525985317 / 562949953421312)) (Fin (2 ^ 1023)) = PInf"
    by (simp only: js_mul.simps to_double_overflow)
  have "(5403193652937753 / 1125899906842624 :: rat) * - (2 ^ 1023) \<le> - (2 ^ 1024)"
    by simp
  then have t2: "js_mul (Fin (5403193652937753 / 1125899906842624)) (Fin (- (2 ^ 1023))) = NInf"
    by (simp only: js_mul.simps to_double_underflow)
  have s1: "js_add (Fin (3108961486513373 / 35184372088832)) PInf = PInf"
    and s2: "js_add PInf NInf = NaN" and s3: "js_add NaN y = NaN" for y
    by simp_all
  have "harris_benedict (coefficients_of ''male'') (Fin 0) (Fin (- (2 ^ 1023))) (Fin (2 ^ 1023)) = NaN"
    by (simp only: harris_benedict_def coefficients_of_def refl if_True male_coefficients_def
        coefficients.select_convs js_sub_def lit_88362 lit_13397 lit_4799 lit_5677
        t1 t2 s1 s2 s3)
  then show ?thesis by (simp only: calculateBMR_harris_benedict Math_round.simps)
qed

text \<open>
  C10, as stated, has \<open>calculateBMR\<close> monotone in each argument for all real inputs.
  With age 0 and height \<open>- (2 ^ 1023)\<close>, a binary64 value, the term of the height
  overflows to \<open>-\<infinity>\<close>; at weight 1 the result is \<open>-\<infinity>\<close>, at weight \<open>2 ^ 1023\<close> the term of
  the weight overflows to \<open>+\<infinity>\<close> and the result is NaN, which is not above anything.
\<close>

theorem calculateBMR_not_monotone_on_overflow:
  "js_le (Fin 1) (Fin (2 ^ 1023)) \<and>
   calculateBMR ''male'' (Fin 0) (Fin (- (2 ^ 1023))) (Fin 1) = NInf \<and>
   calculateBMR ''male'' (Fin 0) (Fin (- (2 ^ 1023))) (Fin (2 ^ 1023)) = NaN \<and>
   \<not> js_le (calculateBMR ''male'' (Fin 0) (Fin (- (2 ^ 1023))) (Fin 1))
          (calculateBMR ''male'' (Fin 0) (Fin (- (2 ^ 1023))) (Fin (2 ^ 1023)))"
  by (simp only: calc_male_overflow_low calc_male_overflow_high) (simp add: js_le_def)

text \<open>
  C10, amended. For each fixed gender \<open>calculateBMR\<close> is monotone in each argument, the
  other two held fixed, wherever neither of the two results compared is NaN:
  non-decreasing in weight and in height, non-increasing in age. No result is NaN when
  age, height and weight are finite and of magnitude at most \<open>2 ^ 1000\<close>.
\<close>

theorem calculateBMR_monotone:
  "(js_le w1 w2 \<and> calculateBMR gender age height w1 \<noteq> NaN \<and>
      calculateBMR gender age height w2 \<noteq> NaN \<longrightarrow>
      js_le (calculateBMR gender age height w1) (calculateBMR gender age height w2)) \<and>
   (js_le h1 h2 \<and> calculateBMR gender age h1 weight \<noteq> NaN \<and>
      calculateBMR gender age h2 weight \<noteq> NaN \<longrightarrow>
      js_le (calculateBMR gender age h1 weight) (calculateBMR gender age h2 weight)) \<and>
   (js_le a1 a2 \<and> calculateBMR gender a1 height weight \<noteq> NaN \<and>
      calculateBMR gender a2 height weight \<noteq> NaN \<longrightarrow>
      js_le (calculateBMR gender a2 height weight) (calculateBMR gender a1 height weight)) \<and>
   (\<bar>a\<bar> \<le> 2 ^ 1000 \<and> \<bar>h\<bar> \<le> 2 ^ 1000 \<and> \<bar>w\<bar> \<le> 2 ^ 1000 \<longrightarrow>
      calculateBMR gender (Fin a) (Fin h) (Fin w) \<noteq> NaN)"
proof -
  from coefficient_literals [of gender] obtain c0 c1 c2 c3 where
    lits: "number_literal (per_kg (coefficients_of gender)) = Fin c1"
      "number_literal (per_cm (coefficients_of gender)) = Fin c2"
      "number_literal (per_year (coefficients_of gender)) = Fin c3"
    and pos: "0 < c1" "0 < c2" "0 < c3"
    by blast
  let ?c = "coefficients_of gender"
  have weight: "js_le (calculateBMR gender age height w1) (calculateBMR gender age height w2)"
    if "js_le w1 w2" "calculateBMR gender age height w1 \<noteq> NaN"
      "calculateBMR gender age height w2 \<noteq> NaN"
  proof -
    from that(2,3) have "harris_benedict ?c age height w1 \<noteq> NaN"
      "harris_benedict ?c age height w2 \<noteq> NaN"
      by (simp_all add: calculateBMR_harris_benedict)
    with that(1) have "js_le (harris_benedict ?c age height w1) (harris_benedict ?c age height w2)"
      using lits(1) pos(1) by (rule harris_benedict_mono_weight)
    then show ?thesis unfolding calculateBMR_harris_benedict by (rule Math_round_mono)
  qed
  have height: "js_le (calculateBMR gender age h1 weight) (calculateBMR gender age h2 weight)"
    if "js_le h1 h2" "calculateBMR gender age h1 weight \<noteq> NaN"
      "calculateBMR gender age h2 weight \<noteq> NaN"
  proof -
    from that(2,3) have "harris_benedict ?c age h1 weight \<noteq> NaN"
      "harris_benedict ?c age h2 weight \<noteq> NaN"
      by (simp_all add: calculateBMR_harris_benedict)
    with that(1) have "js_le (harris_benedict ?c age h1 weight) (harris_benedict ?c age h2 weight)"
      using lits(2) pos(2) by (rule harris_benedict_mono_height)
    then show ?thesis unfolding calculateBMR_harris_benedict by (rule Math_round_mono)
  qed
  have age: "js_le (calculateBMR gender a2 height weight) (calculateBMR gender a1 height weight)"
    if "js_le a1 a2" "calculateBMR gender a1 height weight \<noteq> NaN"
      "calculateBMR gender a2 height weight \<noteq> NaN"
  proof -
    from that(2,3) have "harris_benedict ?c a1 height weight \<noteq> NaN"
      "harris_benedict ?c a2 height weight \<noteq> NaN"
      by (simp_all add: calculateBMR_harris_benedict)
    with that(1) have "js_le (harris_benedict ?c a2 height weight) (harris_benedict ?c a1 height weight)"
      using lits(3) pos(3) by (rule harris_benedict_antimono_age)
    then show ?thesis unfolding calculateBMR_harris_benedict by (rule Math_round_mono)
  qed
  have finite: "calculateBMR gender (Fin a) (Fin h) (Fin w) \<noteq> NaN"
    if "\<bar>a\<bar> \<le> 2 ^ 1000" "\<bar>h\<bar> \<le> 2 ^ 1000" "\<bar>w\<bar> \<le> 2 ^ 1000"
  proof -
    from that obtain r where
      "harris_benedict (coefficients_of gender) (Fin a) (Fin h) (Fin w) = Fin r"
      using harris_benedict_finite [of a h w gender] by blast
    then show ?thesis by (simp add: calculateBMR_harris_benedict)
  qed
  from weight height age finite show ?thesis by blast
qed

theorem calculateBMR_monotone_witness:
  "js_le (Fin 60) (Fin 70) \<and>
   calculateBMR ''male'' (Fin 30) (Fin 175) (Fin 60) = Fin 1562 \<and>
   calculateBMR ''male'' (Fin 30) (Fin 175) (Fin 70) = Fin 1696 \<and>
   js_le (calculateBMR ''male'' (Fin 30) (Fin 175) (Fin 60))
         (calculateBMR ''male'' (Fin 30) (Fin 175) (Fin 70)) \<and>
   js_le (Fin 165) (Fin 175) \<and>
   calculateBMR ''male'' (Fin 30) (Fin 165) (Fin 70) = Fin 1648 \<and>
   js_le (calculateBMR ''male'' (Fin 30) (Fin 165) (Fin 70))
         (calculateBMR ''male'' (Fin 30) (Fin 175) (Fin 70)) \<and>
   js_le (Fin 30) (Fin 40) \<and>
   calculateBMR ''male'' (Fin 40) (Fin 175) (Fin 70) = Fin 1639 \<and>
   js_le (calculateBMR ''male'' (Fin 40) (Fin 175) (Fin 70))
         (calculateBMR ''male'' (Fin 30) (Fin 175) (Fin 70))"
  using calculateBMR_monotone [of "Fin 60" "Fin 70" "''male''" "Fin 30" "Fin 175"
      "Fin 165" "Fin 175" "Fin 70" "Fin 30" "Fin 40" 30 175 70]
  by (simp add: calc_male_30_175_60 calc_male_30_175_70 calc_male_30_165_70 calc_male_40_175_70)

end
